theory Spec2Isabelle
  imports Main "HOL-Library.Log_Nat" "HOL-Library.Multiset"
begin

section \<open>VocabMaster: the store and its request handlers\<close>

text \<open>
  The service is an Express application over one SQLite database. Every handler is
  modelled as a function from the request's parameters and the database to a response
  and the database afterwards. Requests are taken one after the other, and the
  statements of a handler run in the order it issues them, except in the import of a
  reading, whose statements the connection may reorder and which takes a schedule. A
  storage failure other than a constraint of the schema is not modelled. Timestamps (\<open>added_date\<close>, \<open>test_date\<close>) are left out of the rows of
  every table but \<open>words\<close>.

  The repository holds the server in more than one copy. The copy with the reading
  module (correct-streak policy) is the one modelled under the plain names; the copy
  \<open>server.js\<close> opens with (decrementing mistake count, duplicate check on update) is
  modelled, where a property below needs it, under names ending in \<open>_v2\<close>. The older copy at
  the end of \<open>server.js\<close> has the tracker and the word update of the first copy.
\<close>

subsection \<open>Strings and errors\<close>

text \<open>A JavaScript string is a sequence of UTF-16 code units.\<close>

type_synonym jsstring = "nat list"

definition ascii :: "string \<Rightarrow> jsstring" where
  "ascii s = map of_char s"

text \<open>The four kinds of error response and their HTTP status.\<close>

datatype error = ValidationError | NotFoundError | ConflictError | StorageError

fun http_status :: "error \<Rightarrow> nat" where
  "http_status ValidationError = 400"
| "http_status NotFoundError = 404"
| "http_status ConflictError = 409"
| "http_status StorageError = 500"

subsection \<open>Numbers\<close>

text \<open>
  A JavaScript number is an IEEE 754 double. \<open>Num m e\<close> is the finite value \<open>m * 2^e\<close>;
  the operations below round to the nearest double with a significand of 53 bits, ties
  to the even one, and are the language's for results in the normal range (no overflow,
  no subnormal result), which holds for every quotient of two counts.
\<close>

datatype jsnum = Num int int | Infinity | NaN

text \<open>The nearest integer to \<open>n / d\<close> for \<open>d > 0\<close>, a tie going to the even one.\<close>

definition round_even :: "int \<Rightarrow> int \<Rightarrow> int" where
  "round_even n d =
     (let q = n div d; r = n mod d
      in if 2 * r < d then q else if d < 2 * r then q + 1 else if even q then q else q + 1)"

text \<open>The exponent \<open>e\<close> with \<open>2^e \<le> n / d < 2^(e + 1)\<close>, for positive \<open>n\<close> and \<open>d\<close>.\<close>

definition floor_log2 :: "int \<Rightarrow> int \<Rightarrow> int" where
  "floor_log2 n d =
     (let k = bitlen n - bitlen d
      in if (if 0 \<le> k then d * 2 ^ nat k \<le> n else d \<le> n * 2 ^ nat (- k)) then k else k - 1)"

text \<open>The double nearest to \<open>(n / d) * 2^x\<close>, for positive \<open>n\<close> and \<open>d\<close>.\<close>

definition to_double :: "int \<Rightarrow> int \<Rightarrow> int \<Rightarrow> jsnum" where
  "to_double n d x =
     (let sh = 52 - floor_log2 n d
      in Num (if 0 \<le> sh then round_even (n * 2 ^ nat sh) d else round_even n (d * 2 ^ nat (- sh)))
             (x - sh))"

text \<open>\<open>a / b\<close> for two counts, \<open>x * k\<close> for a positive integer constant \<open>k\<close>, and \<open>Math.round\<close>.\<close>

definition js_div :: "nat \<Rightarrow> nat \<Rightarrow> jsnum" where
  "js_div a b =
     (if b = 0 then (if a = 0 then NaN else Infinity)
      else if a = 0 then Num 0 0
      else to_double (int a) (int b) 0)"

fun js_times :: "jsnum \<Rightarrow> nat \<Rightarrow> jsnum" where
  "js_times (Num m e) k = (if m = 0 then Num 0 0 else to_double (m * int k) 1 e)"
| "js_times Infinity k = Infinity"
| "js_times NaN k = NaN"

fun math_round :: "jsnum \<Rightarrow> jsnum" where
  "math_round (Num m e) =
     (if 0 \<le> e then Num (m * 2 ^ nat e) 0
      else Num ((2 * m + 2 ^ nat (- e)) div 2 ^ nat (1 - e)) 0)"
| "math_round Infinity = Infinity"
| "math_round NaN = NaN"

text \<open>
  \<open>String.prototype.toUpperCase\<close> on the code units below 128; the other code units are
  left as they are.
\<close>

definition toUpperCase :: "jsstring \<Rightarrow> jsstring" where
  "toUpperCase t = map (\<lambda>u. if 97 \<le> u \<and> u \<le> 122 then u - 32 else u) t"

subsection \<open>Tables\<close>

record word =
  w_id :: nat
  english :: jsstring
  chinese :: jsstring
  example :: "jsstring option"
  added_date :: nat
  familiarity :: int
  exposure :: int

record mistake =
  m_id :: nat
  m_word_id :: int
  mistake_count :: int
  correct_streak :: int

record test_result =
  t_id :: nat
  score :: jsnum
  total_words :: int
  correct_count :: int
  incorrect_count :: int
  result_type :: string

record reading_passage =
  p_id :: nat
  title :: jsstring
  content :: jsstring
  p_exposure :: int

record reading_question =
  q_id :: nat
  passage_id :: nat
  question_text :: jsstring
  option_a :: jsstring
  option_b :: jsstring
  option_c :: jsstring
  correct_answer :: jsstring

text \<open>
  Each table is the list of its rows in rowid order. An \<open>AUTOINCREMENT\<close> key is one more
  than the largest key the table has ever given out, which the \<open>_seq\<close> field keeps.
\<close>

record db =
  words :: "word list"
  words_seq :: nat
  mistakes :: "mistake list"
  mistakes_seq :: nat
  test_results :: "test_result list"
  test_results_seq :: nat
  reading_passages :: "reading_passage list"
  reading_passages_seq :: nat
  reading_questions :: "reading_question list"
  reading_questions_seq :: nat

definition db_empty :: db where
  "db_empty = \<lparr>words = [], words_seq = 0, mistakes = [], mistakes_seq = 0, test_results = [],
     test_results_seq = 0, reading_passages = [], reading_passages_seq = 0,
     reading_questions = [], reading_questions_seq = 0\<rparr>"

subsection \<open>Mistake tracker (correct-streak policy)\<close>

text \<open>\<open>db.get('SELECT * FROM mistakes WHERE word_id = ?')\<close>: the first row of the word.\<close>

definition find_mistake :: "int \<Rightarrow> mistake list \<Rightarrow> mistake option" where
  "find_mistake word_id ms = List.find (\<lambda>m. m_word_id m = word_id) ms"

text \<open>
  \<open>POST /api/mistakes\<close>. The body's \<open>word_id\<close> is \<open>None\<close> when it is missing; a missing
  one and \<open>0\<close> are falsy and refused.
\<close>

definition add_mistake :: "int option \<Rightarrow> db \<Rightarrow> (error + mistake) \<times> db" where
  "add_mistake word_id s =
     (case word_id of
        None \<Rightarrow> (Inl ValidationError, s)
      | Some w \<Rightarrow>
          if w = 0 then (Inl ValidationError, s)
          else
            (case find_mistake w (mistakes s) of
               Some row \<Rightarrow>
                 (Inr \<lparr>m_id = m_id row, m_word_id = w,
                        mistake_count = mistake_count row + 1, correct_streak = 0\<rparr>,
                  s\<lparr>mistakes :=
                      map (\<lambda>m. if m_id m = m_id row
                                then m\<lparr>mistake_count := mistake_count m + 1, correct_streak := 0\<rparr>
                                else m) (mistakes s)\<rparr>)
             | None \<Rightarrow>
                 (let new = \<lparr>m_id = mistakes_seq s + 1, m_word_id = w,
                             mistake_count = 1, correct_streak = 0\<rparr>
                  in (Inr new,
                      s\<lparr>mistakes := mistakes s @ [new], mistakes_seq := mistakes_seq s + 1\<rparr>))))"

text \<open>\<open>POST /api/mistakes/correct/:wordId\<close>.\<close>

datatype correct_response = Removed | Updated mistake

definition record_correct :: "int \<Rightarrow> db \<Rightarrow> (error + correct_response) \<times> db" where
  "record_correct wordId s =
     (case find_mistake wordId (mistakes s) of
        Some row \<Rightarrow>
          (let updatedStreak = correct_streak row + 1 in
           if updatedStreak \<ge> 2
           then (Inr Removed, s\<lparr>mistakes := filter (\<lambda>m. m_id m \<noteq> m_id row) (mistakes s)\<rparr>)
           else (Inr (Updated \<lparr>m_id = m_id row, m_word_id = m_word_id row,
                               mistake_count = mistake_count row, correct_streak = updatedStreak\<rparr>),
                 s\<lparr>mistakes :=
                     map (\<lambda>m. if m_id m = m_id row then m\<lparr>correct_streak := updatedStreak\<rparr> else m)
                       (mistakes s)\<rparr>))
      | None \<Rightarrow> (Inl NotFoundError, s))"

text \<open>\<open>DELETE /api/mistakes/:id\<close> and \<open>DELETE /api/mistakes\<close>.\<close>

definition delete_mistake :: "nat \<Rightarrow> db \<Rightarrow> (error + unit) \<times> db" where
  "delete_mistake i s =
     (if \<exists>m \<in> set (mistakes s). m_id m = i
      then (Inr (), s\<lparr>mistakes := filter (\<lambda>m. m_id m \<noteq> i) (mistakes s)\<rparr>)
      else (Inl NotFoundError, s))"

definition clear_mistakes :: "db \<Rightarrow> (error + unit) \<times> db" where
  "clear_mistakes s = (Inr (), s\<lparr>mistakes := []\<rparr>)"

text \<open>The operations of the tracker as requests, and a run of requests from the empty store.\<close>

datatype mistake_op =
  AddMistake "int option" | RecordCorrect int | DeleteMistake nat | ClearMistakes

fun mistake_step :: "db \<Rightarrow> mistake_op \<Rightarrow> db" where
  "mistake_step s (AddMistake w) = snd (add_mistake w s)"
| "mistake_step s (RecordCorrect w) = snd (record_correct w s)"
| "mistake_step s (DeleteMistake i) = snd (delete_mistake i s)"
| "mistake_step s ClearMistakes = snd (clear_mistakes s)"

definition run_mistake_ops :: "mistake_op list \<Rightarrow> db" where
  "run_mistake_ops ops = foldl mistake_step db_empty ops"

text \<open>
  The invariant of the table: one row per word at most, a streak of 0 or 1, a count of
  1 at least.
\<close>

definition mistakes_inv :: "db \<Rightarrow> bool" where
  "mistakes_inv s \<longleftrightarrow>
     distinct (map m_word_id (mistakes s)) \<and>
     (\<forall>m \<in> set (mistakes s).
        0 \<le> correct_streak m \<and> correct_streak m < 2 \<and> 1 \<le> mistake_count m)"

text \<open>
  The copy in \<open>server.js\<close> has no streak: its table has the columns \<open>id\<close>, \<open>word_id\<close> and
  \<open>mistake_count\<close> and a unique index on \<open>word_id\<close>. A wrong answer adds one to the count
  of the word's row or inserts a row with count 1; a correct answer takes one off the
  count and deletes the row when the new count is 0 or less. The table is modelled
  with its sequence.
\<close>

record mistake_v2 =
  m2_id :: nat
  m2_word_id :: int
  m2_mistake_count :: int

definition add_mistake_v2 ::
  "int option \<Rightarrow> mistake_v2 list \<times> nat \<Rightarrow> (error + unit) \<times> mistake_v2 list \<times> nat" where
  "add_mistake_v2 word_id t =
     (case word_id of
        None \<Rightarrow> (Inl ValidationError, t)
      | Some w \<Rightarrow>
          if w = 0 then (Inl ValidationError, t)
          else
            (case List.find (\<lambda>m. m2_word_id m = w) (fst t) of
               Some row \<Rightarrow>
                 (Inr (),
                  (map (\<lambda>m. if m2_word_id m = w
                             then m\<lparr>m2_mistake_count := m2_mistake_count m + 1\<rparr> else m) (fst t),
                   snd t))
             | None \<Rightarrow>
                 (Inr (),
                  (fst t @ [\<lparr>m2_id = snd t + 1, m2_word_id = w, m2_mistake_count = 1\<rparr>],
                   snd t + 1))))"

definition record_correct_v2 ::
  "int \<Rightarrow> mistake_v2 list \<times> nat \<Rightarrow> (error + unit) \<times> mistake_v2 list \<times> nat" where
  "record_correct_v2 wordId t =
     (case List.find (\<lambda>m. m2_word_id m = wordId) (fst t) of
        None \<Rightarrow> (Inl NotFoundError, t)
      | Some row \<Rightarrow>
          (let newCount = m2_mistake_count row - 1 in
           if newCount \<le> 0
           then (Inr (), (filter (\<lambda>m. m2_word_id m \<noteq> wordId) (fst t), snd t))
           else (Inr (),
                 (map (\<lambda>m. if m2_word_id m = wordId then m\<lparr>m2_mistake_count := newCount\<rparr> else m)
                    (fst t),
                  snd t))))"

subsection \<open>Reading: submitting answers\<close>

text \<open>
  \<open>INSERT INTO test_results (score, total_words, correct_count, incorrect_count, type)\<close>.
  SQLite binds a NaN as \<open>NULL\<close>, which the column \<open>score INTEGER NOT NULL\<close> refuses: the
  statement fails (\<open>None\<close>) and the table stays as it was.
\<close>

definition sql_insert_test_result ::
  "jsnum \<Rightarrow> int \<Rightarrow> int \<Rightarrow> int \<Rightarrow> string \<Rightarrow> db \<Rightarrow> db option" where
  "sql_insert_test_result sc n correct incorrect ty s =
     (if sc = NaN then None
      else Some (s\<lparr>test_results := test_results s @
                     [\<lparr>t_id = test_results_seq s + 1, score = sc, total_words = n,
                       correct_count = correct, incorrect_count = incorrect, result_type = ty\<rparr>],
                   test_results_seq := test_results_seq s + 1\<rparr>))"

record answer_result =
  a_questionId :: nat
  a_userAnswer :: "jsstring option"
  a_correctAnswer :: jsstring
  a_isCorrect :: bool

record submit_response =
  r_score :: jsnum
  r_correctCount :: nat
  r_totalQuestions :: nat
  r_results :: "answer_result list"

text \<open>
  \<open>userAnswer && userAnswer.toUpperCase() === q.correct_answer.toUpperCase()\<close>, as a truth
  value: an answer that is missing or empty is falsy.
\<close>

definition is_correct :: "jsstring option \<Rightarrow> jsstring \<Rightarrow> bool" where
  "is_correct userAnswer correct =
     (case userAnswer of
        None \<Rightarrow> False
      | Some u \<Rightarrow> u \<noteq> [] \<and> toUpperCase u = toUpperCase correct)"

text \<open>The body of \<open>correctAnswers.forEach\<close>, on the counter and the list of results.\<close>

definition check_answer ::
  "(nat \<Rightarrow> jsstring option) \<Rightarrow> nat \<times> answer_result list \<Rightarrow> reading_question
     \<Rightarrow> nat \<times> answer_result list" where
  "check_answer answers acc q =
     (let userAnswer = answers (q_id q);
          ok = is_correct userAnswer (correct_answer q)
      in ((if ok then fst acc + 1 else fst acc),
          snd acc @ [\<lparr>a_questionId = q_id q, a_userAnswer = userAnswer,
                      a_correctAnswer = correct_answer q, a_isCorrect = ok\<rparr>]))"

text \<open>
  \<open>POST /api/reading/submit-answers\<close>. The body's \<open>answers\<close> maps question ids to letters
  and is \<open>None\<close> when missing; a \<open>passageId\<close> of 0 stands for every falsy one. A failure
  of the insert is logged and changes neither the response nor the store.
\<close>

definition submit_answers ::
  "nat \<Rightarrow> (nat \<Rightarrow> jsstring option) option \<Rightarrow> db \<Rightarrow> (error + submit_response) \<times> db" where
  "submit_answers passageId answers s =
     (case answers of
        None \<Rightarrow> (Inl ValidationError, s)
      | Some ans \<Rightarrow>
          if passageId = 0 then (Inl ValidationError, s)
          else
            (let correctAnswers = filter (\<lambda>q. passage_id q = passageId) (reading_questions s);
                 (correctCount, results) = foldl (check_answer ans) (0, []) correctAnswers;
                 totalQuestions = length correctAnswers;
                 sc = math_round (js_times (js_div correctCount totalQuestions) 100)
             in (Inr \<lparr>r_score = sc, r_correctCount = correctCount,
                       r_totalQuestions = totalQuestions, r_results = results\<rparr>,
                 (case sql_insert_test_result sc (int totalQuestions) (int correctCount)
                         (int totalQuestions - int correctCount) ''reading-comprehension'' s of
                    None \<Rightarrow> s
                  | Some s' \<Rightarrow> s'))))"

text \<open>
  The spec's formula read over the rationals, for comparison: the integer nearest to
  \<open>100 * correct / total\<close>, a half going up as in \<open>Math.round\<close>.
\<close>

definition exact_percent :: "nat \<Rightarrow> nat \<Rightarrow> int" where
  "exact_percent c t = (200 * int c + int t) div (2 * int t)"

subsection \<open>Word store\<close>

text \<open>
  \<open>POST /api/words/:id/update-stats\<close>: two \<open>UPDATE\<close> statements, the second one when the
  body's \<open>isCorrect\<close> is truthy. No statement looks at the number of rows it changed.
\<close>

definition update_stats :: "nat \<Rightarrow> bool \<Rightarrow> db \<Rightarrow> (error + unit) \<times> db" where
  "update_stats wordId isCorrect s =
     (let s1 = s\<lparr>words :=
                  map (\<lambda>w. if w_id w = wordId then w\<lparr>exposure := exposure w + 1\<rparr> else w)
                    (words s)\<rparr>
      in if isCorrect
         then (Inr (),
               s1\<lparr>words :=
                    map (\<lambda>w. if w_id w = wordId then w\<lparr>familiarity := familiarity w + 1\<rparr> else w)
                      (words s1)\<rparr>)
         else (Inr (), s1))"

text \<open>The copy in \<open>server.js\<close>: one statement, the familiarity goes down on a wrong answer.\<close>

definition update_stats_v2 :: "nat \<Rightarrow> bool \<Rightarrow> db \<Rightarrow> (error + unit) \<times> db" where
  "update_stats_v2 i isCorrect s =
     (let familiarityChange = (if isCorrect then 1 else - 1) in
      if \<exists>w \<in> set (words s). w_id w = i
      then (Inr (),
            s\<lparr>words :=
                map (\<lambda>w. if w_id w = i
                          then w\<lparr>exposure := exposure w + 1,
                                 familiarity := familiarity w + familiarityChange\<rparr>
                          else w) (words s)\<rparr>)
      else (Inl NotFoundError, s))"

text \<open>
  \<open>UPDATE words SET english = ?, chinese = ?, example = ? WHERE id = ?\<close> under the
  column constraint \<open>english TEXT NOT NULL UNIQUE\<close>, which compares byte by byte: the
  statement fails when it would give a row the \<open>english\<close> of another row, and
  otherwise returns the number of rows it changed and the rows afterwards.
\<close>

definition sql_update_word ::
  "nat \<Rightarrow> jsstring \<Rightarrow> jsstring \<Rightarrow> jsstring option \<Rightarrow> word list \<Rightarrow> unit + nat \<times> word list" where
  "sql_update_word i e c x ws =
     (if (\<exists>w \<in> set ws. w_id w = i) \<and> (\<exists>w \<in> set ws. w_id w \<noteq> i \<and> english w = e)
      then Inl ()
      else Inr (length (filter (\<lambda>w. w_id w = i) ws),
                map (\<lambda>w. if w_id w = i then w\<lparr>english := e, chinese := c, example := x\<rparr> else w) ws))"

text \<open>
  \<open>PUT /api/words/:id\<close>. An empty and a missing \<open>english\<close> or \<open>chinese\<close> are both falsy.
  The response of a success repeats the id and the three fields.
\<close>

definition update_word ::
  "nat \<Rightarrow> jsstring \<Rightarrow> jsstring \<Rightarrow> jsstring option \<Rightarrow> db
     \<Rightarrow> (error + nat \<times> jsstring \<times> jsstring \<times> jsstring option) \<times> db" where
  "update_word i e c x s =
     (if e = [] \<or> c = [] then (Inl ValidationError, s)
      else
        (case sql_update_word i e c x (words s) of
           Inl _ \<Rightarrow> (Inl StorageError, s)
         | Inr (changes, ws) \<Rightarrow>
             if changes > 0 then (Inr (i, e, c, x), s\<lparr>words := ws\<rparr>)
             else (Inl NotFoundError, s)))"

text \<open>
  The copy in \<open>server.js\<close> first looks for another row with the new \<open>english\<close>
  (\<open>SELECT id FROM words WHERE english = ? AND id != ?\<close>, the comparison of SQLite's
  default collation) and stores \<open>example || ''\<close>.
\<close>

definition update_word_v2 ::
  "nat \<Rightarrow> jsstring \<Rightarrow> jsstring \<Rightarrow> jsstring option \<Rightarrow> db
     \<Rightarrow> (error + nat \<times> jsstring \<times> jsstring \<times> jsstring option) \<times> db" where
  "update_word_v2 i e c x s =
     (if e = [] \<or> c = [] then (Inl ValidationError, s)
      else
        (case List.find (\<lambda>w. english w = e \<and> w_id w \<noteq> i) (words s) of
           Some row \<Rightarrow> (Inl ConflictError, s)
         | None \<Rightarrow>
             (case sql_update_word i e c (Some (case x of None \<Rightarrow> [] | Some v \<Rightarrow> v)) (words s) of
                Inl _ \<Rightarrow> (Inl StorageError, s)
              | Inr (changes, ws) \<Rightarrow>
                  if changes = 0 then (Inl NotFoundError, s)
                  else (Inr (i, e, c, x), s\<lparr>words := ws\<rparr>))))"

text \<open>SQL's \<open>LOWER\<close>, which folds the ASCII letters: the comparison of the add-word handler.\<close>

definition lower :: "jsstring \<Rightarrow> jsstring" where
  "lower t = map (\<lambda>u. if 65 \<le> u \<and> u \<le> 90 then u + 32 else u) t"

text \<open>
  \<open>POST /api/words\<close> of the copy without the check on update: it looks for a word with
  \<open>LOWER(english) = LOWER(?)\<close> and answers 409 when there is one, and inserts the word
  otherwise, at the time \<open>now\<close>. No word of the store has the new \<open>english\<close> then, so the
  insert breaks no constraint.
\<close>

definition add_word ::
  "jsstring \<Rightarrow> jsstring \<Rightarrow> jsstring option \<Rightarrow> nat \<Rightarrow> db \<Rightarrow> (error + word) \<times> db" where
  "add_word e c x now s =
     (if e = [] \<or> c = [] then (Inl ValidationError, s)
      else
        (case List.find (\<lambda>w. lower (english w) = lower e) (words s) of
           Some row \<Rightarrow> (Inl ConflictError, s)
         | None \<Rightarrow>
             (let new = \<lparr>w_id = words_seq s + 1, english = e, chinese = c, example = x,
                         added_date = now, familiarity = 0, exposure = 0\<rparr>
              in (Inr new, s\<lparr>words := words s @ [new], words_seq := words_seq s + 1\<rparr>))))"

section \<open>The reading importer\<close>

subsection \<open>String operations\<close>

text \<open>The code units that \<open>\s\<close> matches and \<open>trim\<close> strips: white space and line terminators.\<close>

definition is_space :: "nat \<Rightarrow> bool" where
  "is_space u \<longleftrightarrow>
     u \<in> set [9, 10, 11, 12, 13, 32, 160, 5760, 8232, 8233, 8239, 8287, 12288, 65279] \<or>
     (8192 \<le> u \<and> u \<le> 8202)"

definition trim :: "jsstring \<Rightarrow> jsstring" where
  "trim t = rev (dropWhile is_space (rev (dropWhile is_space t)))"

text \<open>\<open>t.split('\n')\<close> and \<open>ls.join('\n')\<close>.\<close>

fun split_lines :: "jsstring \<Rightarrow> jsstring list" where
  "split_lines [] = [[]]"
| "split_lines (x # xs) =
     (if x = 10 then [] # split_lines xs
      else (case split_lines xs of [] \<Rightarrow> [[x]] | l # ls \<Rightarrow> (x # l) # ls))"

fun join_lines :: "jsstring list \<Rightarrow> jsstring" where
  "join_lines [] = []"
| "join_lines [l] = l"
| "join_lines (l # ls) = l @ 10 # join_lines ls"

text \<open>\<open>n.toString()\<close> for a count: its decimal digits.\<close>

fun to_string :: "nat \<Rightarrow> jsstring" where
  "to_string n = (if n < 10 then [48 + n] else to_string (n div 10) @ [48 + n mod 10])"

declare to_string.simps [simp del]

subsection \<open>Regular expressions\<close>

text \<open>
  The constructs of the importer's three patterns, and the backtracking matcher of
  the language: a pattern is matched against the rest of the input with a
  continuation, which is given the input left and the captures, and the first
  alternative whose continuation succeeds wins. A quantifier applies to a class of
  code units here, so an iteration never matches the empty string.
\<close>

datatype char_class = Digit | Space | AnyChar | OneOf "nat list"

fun in_class :: "char_class \<Rightarrow> nat \<Rightarrow> bool" where
  "in_class Digit u = (48 \<le> u \<and> u \<le> 57)"
| "in_class Space u = is_space u"
| "in_class AnyChar u = True"
| "in_class (OneOf us) u = (u \<in> set us)"

datatype regex =
    Empty
  | Chars char_class
  | Seq regex regex
  | Alt regex regex
  | Star char_class
  | LazyStar char_class
  | Group nat regex
  | Ahead regex
  | EndOfInput

type_synonym captures = "nat \<Rightarrow> jsstring option"
type_synonym match_state = "jsstring \<times> captures"
type_synonym continuation = "jsstring \<Rightarrow> captures \<Rightarrow> match_state option"

text \<open>\<open>c*\<close>: as many code units as possible first, then fewer.\<close>

fun star_greedy :: "char_class \<Rightarrow> jsstring \<Rightarrow> captures \<Rightarrow> continuation \<Rightarrow> match_state option" where
  "star_greedy c [] caps k = k [] caps"
| "star_greedy c (x # xs) caps k =
     (if in_class c x
      then (case star_greedy c xs caps k of Some r \<Rightarrow> Some r | None \<Rightarrow> k (x # xs) caps)
      else k (x # xs) caps)"

text \<open>\<open>c*?\<close>: as few code units as possible first, then more.\<close>

fun star_lazy :: "char_class \<Rightarrow> jsstring \<Rightarrow> captures \<Rightarrow> continuation \<Rightarrow> match_state option" where
  "star_lazy c [] caps k = k [] caps"
| "star_lazy c (x # xs) caps k =
     (case k (x # xs) caps of
        Some r \<Rightarrow> Some r
      | None \<Rightarrow> if in_class c x then star_lazy c xs caps k else None)"

fun rmatch :: "regex \<Rightarrow> jsstring \<Rightarrow> captures \<Rightarrow> continuation \<Rightarrow> match_state option" where
  "rmatch Empty xs caps k = k xs caps"
| "rmatch (Chars c) xs caps k =
     (case xs of [] \<Rightarrow> None | x # r \<Rightarrow> if in_class c x then k r caps else None)"
| "rmatch (Seq a b) xs caps k = rmatch a xs caps (\<lambda>ys caps'. rmatch b ys caps' k)"
| "rmatch (Alt a b) xs caps k =
     (case rmatch a xs caps k of Some r \<Rightarrow> Some r | None \<Rightarrow> rmatch b xs caps k)"
| "rmatch (Star c) xs caps k = star_greedy c xs caps k"
| "rmatch (LazyStar c) xs caps k = star_lazy c xs caps k"
| "rmatch (Group i a) xs caps k =
     rmatch a xs caps (\<lambda>ys caps'. k ys (caps'(i \<mapsto> take (length xs - length ys) xs)))"
| "rmatch (Ahead a) xs caps k =
     (case rmatch a xs caps (\<lambda>ys caps'. Some (ys, caps')) of
        None \<Rightarrow> None
      | Some (ys, caps') \<Rightarrow> k xs caps')"
| "rmatch EndOfInput xs caps k = (if xs = [] then k xs caps else None)"

text \<open>A match of the pattern at the start of the input: the input left and the captures.\<close>

definition match_here :: "regex \<Rightarrow> jsstring \<Rightarrow> match_state option" where
  "match_here r xs = rmatch r xs Map.empty (\<lambda>ys caps. Some (ys, caps))"

text \<open>
  \<open>r.exec(t)\<close> for a pattern with the \<open>g\<close> flag, on the input from \<open>lastIndex\<close> on: the
  first position at which the pattern matches; the input left is what follows the new
  \<open>lastIndex\<close>. No construct above looks at the input before the position it stands
  at, so a match depends on the input from that position on only.
\<close>

fun regex_exec :: "regex \<Rightarrow> jsstring \<Rightarrow> match_state option" where
  "regex_exec r [] = match_here r []"
| "regex_exec r (x # xs) =
     (case match_here r (x # xs) of Some m \<Rightarrow> Some m | None \<Rightarrow> regex_exec r xs)"

text \<open>A captured group as a string; every group read below takes part in its match.\<close>

definition group_text :: "captures \<Rightarrow> nat \<Rightarrow> jsstring" where
  "group_text caps i = (case caps i of Some t \<Rightarrow> t | None \<Rightarrow> [])"

text \<open>A literal string, one or more of a class, and a sequence of patterns.\<close>

fun lit :: "jsstring \<Rightarrow> regex" where
  "lit [] = Empty"
| "lit (u # us) = Seq (Chars (OneOf [u])) (lit us)"

definition Plus :: "char_class \<Rightarrow> regex" where
  "Plus c = Seq (Chars c) (Star c)"

fun seqs :: "regex list \<Rightarrow> regex" where
  "seqs [] = Empty"
| "seqs (r # rs) = Seq r (seqs rs)"

text \<open>
  A pattern that cannot match without taking a code unit: the patterns below are of
  this kind, which is why the loops over their matches end.
\<close>

fun consuming :: "regex \<Rightarrow> bool" where
  "consuming (Chars c) = True"
| "consuming (Seq a b) = (consuming a \<or> consuming b)"
| "consuming (Alt a b) = (consuming a \<and> consuming b)"
| "consuming (Group i a) = consuming a"
| "consuming r = False"

lemma star_greedy_shorter:
  "star_greedy c xs caps k = Some res \<Longrightarrow> \<exists>ys caps'. length ys \<le> length xs \<and> k ys caps' = Some res"
proof (induction xs)
  case Nil
  then show ?case by auto
next
  case (Cons x xs)
  show ?case
  proof (cases "in_class c x \<and> star_greedy c xs caps k \<noteq> None")
    case True
    with Cons.prems have "star_greedy c xs caps k = Some res" by auto
    from Cons.IH [OF this] show ?thesis by (auto intro: le_SucI)
  next
    case False
    with Cons.prems have "k (x # xs) caps = Some res"
      by (auto split: if_splits option.splits)
    then show ?thesis by blast
  qed
qed

lemma star_lazy_shorter:
  "star_lazy c xs caps k = Some res \<Longrightarrow> \<exists>ys caps'. length ys \<le> length xs \<and> k ys caps' = Some res"
proof (induction xs)
  case Nil
  then show ?case by auto
next
  case (Cons x xs)
  show ?case
  proof (cases "k (x # xs) caps")
    case None
    with Cons.prems have "star_lazy c xs caps k = Some res" by (auto split: if_splits)
    from Cons.IH [OF this] show ?thesis by (auto intro: le_SucI)
  next
    case (Some r)
    with Cons.prems have "k (x # xs) caps = Some res" by simp
    then show ?thesis by blast
  qed
qed

text \<open>A match never gives its continuation more input than it was given.\<close>

lemma rmatch_shorter:
  "rmatch r xs caps k = Some res \<Longrightarrow> \<exists>ys caps'. length ys \<le> length xs \<and> k ys caps' = Some res"
proof (induction r arbitrary: xs caps k res)
  case Empty
  then show ?case by auto
next
  case (Chars c)
  then show ?case by (cases xs) (auto split: if_splits intro: le_SucI)
next
  case (Seq a b)
  from Seq.prems have "rmatch a xs caps (\<lambda>ys caps'. rmatch b ys caps' k) = Some res" by simp
  from Seq.IH(1) [OF this] obtain ys c1 where
    ys: "length ys \<le> length xs" "rmatch b ys c1 k = Some res" by blast
  from Seq.IH(2) [OF ys(2)] obtain zs c2 where "length zs \<le> length ys" "k zs c2 = Some res"
    by blast
  with ys(1) show ?case by (meson le_trans)
next
  case (Alt a b)
  show ?case
  proof (cases "rmatch a xs caps k")
    case None
    with Alt.prems have "rmatch b xs caps k = Some res" by simp
    from Alt.IH(2) [OF this] show ?thesis .
  next
    case (Some r)
    with Alt.prems have "rmatch a xs caps k = Some res" by simp
    from Alt.IH(1) [OF this] show ?thesis .
  qed
next
  case (Star c)
  then have "star_greedy c xs caps k = Some res" by simp
  from star_greedy_shorter [OF this] show ?case .
next
  case (LazyStar c)
  then have "star_lazy c xs caps k = Some res" by simp
  from star_lazy_shorter [OF this] show ?case .
next
  case (Group i a)
  from Group.prems
  have "rmatch a xs caps (\<lambda>ys caps'. k ys (caps'(i \<mapsto> take (length xs - length ys) xs))) = Some res"
    by simp
  from Group.IH [OF this] show ?case by blast
next
  case (Ahead a)
  then show ?case by (auto split: option.splits)
next
  case EndOfInput
  then show ?case by (auto split: if_splits)
qed

lemma rmatch_consuming:
  "consuming r \<Longrightarrow> rmatch r xs caps k = Some res \<Longrightarrow>
     \<exists>ys caps'. length ys < length xs \<and> k ys caps' = Some res"
proof (induction r arbitrary: xs caps k res)
  case (Chars c)
  then show ?case by (cases xs) (auto split: if_splits)
next
  case (Seq a b)
  from Seq.prems(2) have m: "rmatch a xs caps (\<lambda>ys caps'. rmatch b ys caps' k) = Some res" by simp
  show ?case
  proof (cases "consuming a")
    case True
    from Seq.IH(1) [OF True m] obtain ys c1 where
      ys: "length ys < length xs" "rmatch b ys c1 k = Some res" by blast
    from rmatch_shorter [OF ys(2)] obtain zs c2 where "length zs \<le> length ys" "k zs c2 = Some res"
      by blast
    with ys(1) show ?thesis by (meson le_less_trans)
  next
    case False
    with Seq.prems(1) have cb: "consuming b" by simp
    from rmatch_shorter [OF m] obtain ys c1 where
      ys: "length ys \<le> length xs" "rmatch b ys c1 k = Some res" by blast
    from Seq.IH(2) [OF cb ys(2)] obtain zs c2 where "length zs < length ys" "k zs c2 = Some res"
      by blast
    with ys(1) show ?thesis by (meson less_le_trans)
  qed
next
  case (Alt a b)
  show ?case
  proof (cases "rmatch a xs caps k")
    case None
    with Alt.prems have "rmatch b xs caps k = Some res" "consuming b" by simp_all
    from Alt.IH(2) [OF this(2,1)] show ?thesis .
  next
    case (Some r)
    with Alt.prems have "rmatch a xs caps k = Some res" "consuming a" by simp_all
    from Alt.IH(1) [OF this(2,1)] show ?thesis .
  qed
next
  case (Group i a)
  from Group.prems
  have "rmatch a xs caps (\<lambda>ys caps'. k ys (caps'(i \<mapsto> take (length xs - length ys) xs))) = Some res"
    and "consuming a" by simp_all
  from Group.IH [OF this(2,1)] show ?case by blast
qed simp_all

lemma match_here_shorter: "match_here r xs = Some (ys, caps) \<Longrightarrow> length ys \<le> length xs"
  unfolding match_here_def by (drule rmatch_shorter) auto

lemma match_here_consuming:
  "consuming r \<Longrightarrow> match_here r xs = Some (ys, caps) \<Longrightarrow> length ys < length xs"
  unfolding match_here_def by (drule (1) rmatch_consuming) auto

lemma regex_exec_consuming:
  "consuming r \<Longrightarrow> regex_exec r xs = Some (ys, caps) \<Longrightarrow> length ys < length xs"
proof (induction xs)
  case Nil
  then show ?case by (auto dest: match_here_consuming)
next
  case (Cons x xs)
  then show ?case
    by (cases "match_here r (x # xs)") (auto dest: match_here_consuming)
qed

text \<open>
  \<open>t.split(r)\<close> for a non-empty \<open>t\<close>, from position \<open>q\<close> on; \<open>seg\<close> is the text between
  the end \<open>p\<close> of the last separator and \<open>q\<close>. A match that ends at \<open>p\<close> is passed over.
  The patterns here have no capture to add to the result.
\<close>

function split_loop :: "regex \<Rightarrow> jsstring \<Rightarrow> jsstring \<Rightarrow> jsstring list" where
  "split_loop r seg [] = [seg]"
| "split_loop r seg (x # xs) =
     (case match_here r (x # xs) of
        None \<Rightarrow> split_loop r (seg @ [x]) xs
      | Some (rest, caps) \<Rightarrow>
          if seg = [] \<and> length rest = length (x # xs) then split_loop r (seg @ [x]) xs
          else seg # split_loop r [] rest)"
  by pat_completeness auto
termination
proof (relation "measures [\<lambda>(r, seg, xs). length xs, \<lambda>(r, seg, xs). length seg]", goal_cases)
  case 1
  show ?case by simp
next
  case (2 r seg x xs)
  show ?case by simp
next
  case (3 r seg x xs m rest caps)
  show ?case by simp
next
  case (4 r seg x xs m rest caps)
  from 4(1,2) have "length rest \<le> length (x # xs)"
    by (auto dest: match_here_shorter)
  with 4(3) show ?case by auto
qed

definition js_split :: "regex \<Rightarrow> jsstring \<Rightarrow> jsstring list" where
  "js_split r t =
     (if t = [] then (if match_here r [] = None then [[]] else []) else split_loop r [] t)"

subsection \<open>The importer's patterns\<close>

text \<open>The three markers, as code units, and the class \<open>[.\<dots>]\<close> of the full stop and U+3001.\<close>

definition marker_passage :: jsstring where
  "marker_passage = [38405, 35835, 25991, 26412]"

definition marker_questions :: jsstring where
  "marker_questions = [36873, 25321, 39064]"

definition marker_answers :: jsstring where
  "marker_answers = [31572, 26696]"

definition stop :: char_class where
  "stop = OneOf [46, 12289]"

text \<open>\<^verbatim>\<open>/\s*M1\s*|\s*M2\s*|\s*M3\s*/\<close> for the three markers \<open>M1\<close>, \<open>M2\<close>, \<open>M3\<close>.\<close>

definition separator :: regex where
  "separator =
     Alt (seqs [Star Space, lit marker_passage, Star Space])
       (Alt (seqs [Star Space, lit marker_questions, Star Space])
          (seqs [Star Space, lit marker_answers, Star Space]))"

text \<open>
  \<^verbatim>\<open>/(\d+)[.,]\s*(.*?)\s*A[.,]\s*(.*?)\s*B[.,]\s*(.*?)\s*C[.,]\s*(.*?)(?=\d+[.,]|$)/gs\<close>,
  where \<^verbatim>\<open>[.,]\<close> stands for the class \<open>stop\<close>; with the \<open>s\<close> flag the dot matches every
  code unit.
\<close>

definition questionRegex :: regex where
  "questionRegex =
     seqs [Group 1 (Plus Digit), Chars stop, Star Space,
           Group 2 (LazyStar AnyChar), Star Space, Chars (OneOf [65]), Chars stop, Star Space,
           Group 3 (LazyStar AnyChar), Star Space, Chars (OneOf [66]), Chars stop, Star Space,
           Group 4 (LazyStar AnyChar), Star Space, Chars (OneOf [67]), Chars stop, Star Space,
           Group 5 (LazyStar AnyChar),
           Ahead (Alt (Seq (Plus Digit) (Chars stop)) EndOfInput)]"

text \<open>\<^verbatim>\<open>/(\d+)\s*[.,]\s*([ABC])\s*/g\<close>.\<close>

definition answerRegex :: regex where
  "answerRegex =
     seqs [Group 1 (Plus Digit), Star Space, Chars stop, Star Space,
           Group 2 (Chars (OneOf [65, 66, 67])), Star Space]"

lemma consuming_patterns:
  "consuming separator" "consuming questionRegex" "consuming answerRegex"
  by (simp_all add: separator_def questionRegex_def answerRegex_def Plus_def marker_passage_def
      marker_questions_def marker_answers_def)

subsection \<open>Parsing the sections\<close>

record parsed_question =
  questionText :: jsstring
  optionA :: jsstring
  optionB :: jsstring
  optionC :: jsstring

text \<open>The loop \<open>while ((match = questionRegex.exec(questionsText)) !== null)\<close>.\<close>

function parse_questions :: "jsstring \<Rightarrow> parsed_question list" where
  "parse_questions t =
     (case regex_exec questionRegex t of
        None \<Rightarrow> []
      | Some (rest, caps) \<Rightarrow>
          \<lparr>questionText = trim (group_text caps 2), optionA = trim (group_text caps 3),
           optionB = trim (group_text caps 4), optionC = trim (group_text caps 5)\<rparr>
          # parse_questions rest)"
  by pat_completeness auto
termination
  by (relation "measure length") (auto dest: regex_exec_consuming [OF consuming_patterns(2)])

declare parse_questions.simps [simp del]

text \<open>
  The object \<open>answers\<close>: its keys in the order they were first set, each with its
  value. \<open>answers[k] = v\<close> replaces the value of a key that is there.
\<close>

fun obj_set :: "jsstring \<Rightarrow> jsstring \<Rightarrow> (jsstring \<times> jsstring) list \<Rightarrow> (jsstring \<times> jsstring) list" where
  "obj_set k v [] = [(k, v)]"
| "obj_set k v (p # ps) = (if fst p = k then (k, v) # ps else p # obj_set k v ps)"

text \<open>
  The loop over \<open>answerRegex.exec(answersText)\<close>, on the pair of \<open>answers\<close> and
  \<open>answerErrors\<close> (the numbers of the questions whose letter is none of A, B, C).
\<close>

function parse_answers ::
  "jsstring \<Rightarrow> (jsstring \<times> jsstring) list \<times> jsstring list
     \<Rightarrow> (jsstring \<times> jsstring) list \<times> jsstring list" where
  "parse_answers t acc =
     (case regex_exec answerRegex t of
        None \<Rightarrow> acc
      | Some (rest, caps) \<Rightarrow>
          (let questionNum = group_text caps 1;
               letter = group_text caps 2
           in parse_answers rest
                (obj_set questionNum letter (fst acc),
                 (if letter \<in> set [[65], [66], [67]] then snd acc else snd acc @ [questionNum]))))"
  by pat_completeness auto
termination
  by (relation "measure (\<lambda>(t, acc). length t)")
    (auto dest: regex_exec_consuming [OF consuming_patterns(3)])

declare parse_answers.simps [simp del]

subsection \<open>The import handler\<close>

text \<open>The failures of the import, each answered with status 400 and its own message.\<close>

datatype import_failure =
    EmptyContent
  | MissingSections
  | EmptyPassage
  | EmptyTitle
  | EmptyBody
  | NoQuestions
  | EmptyQuestionText nat
  | IncompleteOptions nat
  | NoAnswers
  | InvalidAnswers "jsstring list"
  | CountMismatch nat nat
  | MissingAnswer nat

fun failure_error :: "import_failure \<Rightarrow> error" where
  "failure_error f = ValidationError"

record import_response =
  success_count :: nat
  total_questions :: nat

text \<open>The loop that looks at each question's text and options, from index \<open>i\<close> on.\<close>

fun check_questions :: "nat \<Rightarrow> parsed_question list \<Rightarrow> import_failure option" where
  "check_questions i [] = None"
| "check_questions i (q # qs) =
     (if questionText q = [] then Some (EmptyQuestionText (i + 1))
      else if optionA q = [] \<or> optionB q = [] \<or> optionC q = [] then Some (IncompleteOptions (i + 1))
      else check_questions (i + 1) qs)"

text \<open>The loop that looks for the answer of each question, from index \<open>i\<close> on.\<close>

fun check_coverage ::
  "nat \<Rightarrow> parsed_question list \<Rightarrow> (jsstring \<times> jsstring) list \<Rightarrow> import_failure option" where
  "check_coverage i [] answers = None"
| "check_coverage i (q # qs) answers =
     (case map_of answers (to_string (i + 1)) of
        None \<Rightarrow> Some (MissingAnswer (i + 1))
      | Some v \<Rightarrow> if v = [] then Some (MissingAnswer (i + 1)) else check_coverage (i + 1) qs answers)"

text \<open>
  \<open>questions.forEach\<close>: an \<open>INSERT\<close> is issued for each question that has an answer, here
  the question with its answer, in the order of the questions.
\<close>

fun question_inserts ::
  "(jsstring \<times> jsstring) list \<Rightarrow> nat \<Rightarrow> parsed_question list
     \<Rightarrow> (parsed_question \<times> jsstring) list" where
  "question_inserts answers i [] = []"
| "question_inserts answers i (q # qs) =
     (case map_of answers (to_string (i + 1)) of
        None \<Rightarrow> question_inserts answers (i + 1) qs
      | Some correctAnswer \<Rightarrow>
          if correctAnswer = [] then question_inserts answers (i + 1) qs
          else (q, correctAnswer) # question_inserts answers (i + 1) qs)"

text \<open>One such \<open>INSERT INTO reading_questions\<close>; it breaks no constraint.\<close>

definition insert_question :: "nat \<Rightarrow> db \<Rightarrow> parsed_question \<times> jsstring \<Rightarrow> db" where
  "insert_question passageId s qa =
     s\<lparr>reading_questions := reading_questions s @
          [\<lparr>q_id = reading_questions_seq s + 1, passage_id = passageId,
            question_text = questionText (fst qa), option_a = optionA (fst qa),
            option_b = optionB (fst qa), option_c = optionC (fst qa),
            correct_answer = snd qa\<rparr>],
        reading_questions_seq := reading_questions_seq s + 1\<rparr>"

text \<open>
  The question \<open>INSERT\<close>s and the \<open>COMMIT\<close> are issued from the callback of the passage
  \<open>INSERT\<close>, when \<open>db.serialize\<close> has returned, so the connection runs them in no
  fixed order. A schedule gives the order in which the \<open>INSERT\<close>s run, as the list of
  their positions in the order of issue, and the number of their callbacks that have
  run when the callback of the \<open>COMMIT\<close> reads \<open>successCount\<close>. A list that is not an
  arrangement of the positions stands for the order of issue.
\<close>

record schedule =
  insert_order :: "nat list"
  reported :: nat

definition run_order :: "nat list \<Rightarrow> 'a list \<Rightarrow> 'a list" where
  "run_order ord xs = (if sort ord = [0..<length xs] then map (\<lambda>i. xs ! i) ord else xs)"

text \<open>
  \<open>POST /api/reading/import\<close> on the body's \<open>content\<close>, here \<open>raw\<close>; a missing one and the
  empty string are falsy. No statement of the transaction can break a constraint of
  the schema. The store returned is the store once every statement has run; the
  response's \<open>total_questions\<close> is \<open>successCount\<close> as the callback of the \<open>COMMIT\<close> finds it.
\<close>

definition import_reading ::
  "jsstring \<Rightarrow> schedule \<Rightarrow> db \<Rightarrow> (import_failure + import_response) \<times> db" where
  "import_reading raw sched s =
     (if raw = [] then (Inl EmptyContent, s)
      else
        (case js_split separator raw of
           p0 # p1 # p2 # p3 # ps \<Rightarrow>
             (let passageContent = trim p1;
                  questionsText = trim p2;
                  answersText = trim p3
              in (case split_lines passageContent of
                    [] \<Rightarrow> (Inl EmptyPassage, s)
                  | l # ls \<Rightarrow>
                      (let title = trim l in
                       if title = [] then (Inl EmptyTitle, s)
                       else
                         (let actualContent = trim (join_lines ls) in
                          if actualContent = [] then (Inl EmptyBody, s)
                          else
                            (let questions = parse_questions questionsText in
                             if questions = [] then (Inl NoQuestions, s)
                             else
                               (case check_questions 0 questions of
                                  Some f \<Rightarrow> (Inl f, s)
                                | None \<Rightarrow>
                                    (let (answers, answerErrors) = parse_answers answersText ([], []) in
                                     if answers = [] then (Inl NoAnswers, s)
                                     else if answerErrors \<noteq> [] then (Inl (InvalidAnswers answerErrors), s)
                                     else if length questions \<noteq> length answers
                                     then (Inl (CountMismatch (length questions) (length answers)), s)
                                     else
                                       (case check_coverage 0 questions answers of
                                          Some f \<Rightarrow> (Inl f, s)
                                        | None \<Rightarrow>
                                            (let passageId = reading_passages_seq s + 1;
                                                 s1 = s\<lparr>reading_passages := reading_passages s @
                                                          [\<lparr>p_id = passageId, title = title,
                                                            content = actualContent, p_exposure = 0\<rparr>],
                                                        reading_passages_seq := passageId\<rparr>;
                                                 inserts = question_inserts answers 0 questions;
                                                 s2 = foldl (insert_question passageId) s1
                                                        (run_order (insert_order sched) inserts);
                                                 successCount = min (reported sched) (length inserts)
                                             in (Inr \<lparr>success_count = 1, total_questions = successCount\<rparr>,
                                                 s2))))))))))
         | _ \<Rightarrow> (Inl MissingSections, s)))"

subsection \<open>The spec's words about the markers\<close>

text \<open>
  The definitions of this subsection follow the spec, not the code: a marker stands
  at the start of a text; the number of places of a text at which a marker stands;
  and the three markers being all present in order, that is the text being
  \<open>a @ M1 @ b @ M2 @ c @ M3 @ d\<close> for the markers \<open>M1\<close>, \<open>M2\<close>, \<open>M3\<close> in the spec's order.
\<close>

definition starts_with :: "jsstring \<Rightarrow> jsstring \<Rightarrow> bool" where
  "starts_with m t \<longleftrightarrow> take (length m) t = m"

definition marker_here :: "jsstring \<Rightarrow> bool" where
  "marker_here t \<longleftrightarrow>
     starts_with marker_passage t \<or> starts_with marker_questions t \<or> starts_with marker_answers t"

fun marker_count :: "jsstring \<Rightarrow> nat" where
  "marker_count [] = 0"
| "marker_count (x # xs) = (if marker_here (x # xs) then 1 else 0) + marker_count xs"

text \<open>The text after the first place at which \<open>m\<close> stands.\<close>

fun after_first :: "jsstring \<Rightarrow> jsstring \<Rightarrow> jsstring option" where
  "after_first m [] = (if m = [] then Some [] else None)"
| "after_first m (x # xs) =
     (if starts_with m (x # xs) then Some (drop (length m) (x # xs)) else after_first m xs)"

definition markers_in_order :: "jsstring \<Rightarrow> bool" where
  "markers_in_order t =
     (case after_first marker_passage t of
        None \<Rightarrow> False
      | Some r1 \<Rightarrow>
          (case after_first marker_questions r1 of
             None \<Rightarrow> False
           | Some r2 \<Rightarrow> after_first marker_answers r2 \<noteq> None))"

section \<open>Properties of the mistake tracker\<close>

lemma find_mistake_None_iff:
  "find_mistake w ms = None \<longleftrightarrow> (\<forall>m \<in> set ms. m_word_id m \<noteq> w)"
  by (auto simp: find_mistake_def find_None_iff)

lemma find_mistake_SomeD:
  "find_mistake w ms = Some row \<Longrightarrow> row \<in> set ms \<and> m_word_id row = w"
  by (induction ms) (auto simp: find_mistake_def split: if_splits)

text \<open>An \<open>UPDATE ... WHERE id = row.id\<close> that keeps \<open>word_id\<close> leaves the word's first row first.\<close>

lemma find_mistake_map_upd:
  assumes "find_mistake w ms = Some row" and "\<And>m. m_word_id (f m) = m_word_id m"
  shows "find_mistake w (map (\<lambda>m. if m_id m = m_id row then f m else m) ms) = Some (f row)"
  using assms by (induction ms) (auto simp: find_mistake_def split: if_splits)

lemma find_mistake_append_new:
  "find_mistake w ms = None \<Longrightarrow> m_word_id new = w \<Longrightarrow> find_mistake w (ms @ [new]) = Some new"
  by (induction ms) (auto simp: find_mistake_def split: if_splits)

lemma find_mistake_filter_removed:
  assumes "distinct (map m_word_id ms)" and "find_mistake w ms = Some row"
  shows "find_mistake w (filter (\<lambda>m. m_id m \<noteq> m_id row) ms) = None"
proof -
  from assms(2) have r: "row \<in> set ms" "m_word_id row = w"
    by (auto dest: find_mistake_SomeD)
  have "m = row" if "m \<in> set ms" "m_word_id m = w" for m
    using that r assms(1) by (auto simp: distinct_map inj_on_def)
  then show ?thesis
    by (auto simp: find_mistake_None_iff)
qed

lemma upd_keeps_keys [simp]:
  "m_word_id \<circ> (\<lambda>m. if P m then m\<lparr>mistake_count := c m, correct_streak := k m\<rparr> else m) = m_word_id"
  "m_id \<circ> (\<lambda>m. if P m then m\<lparr>mistake_count := c m, correct_streak := k m\<rparr> else m) = m_id"
  "m_word_id \<circ> (\<lambda>m. if P m then m\<lparr>correct_streak := k m\<rparr> else m) = m_word_id"
  "m_id \<circ> (\<lambda>m. if P m then m\<lparr>correct_streak := k m\<rparr> else m) = m_id"
  by (auto simp: fun_eq_iff)

lemma mistakes_inv_add: "mistakes_inv s \<Longrightarrow> mistakes_inv (snd (add_mistake w s))"
proof (cases w)
  case None
  then show "mistakes_inv s \<Longrightarrow> ?thesis" by (simp add: add_mistake_def)
next
  case (Some v)
  assume inv: "mistakes_inv s"
  show ?thesis
  proof (cases "v = 0")
    case True
    with Some inv show ?thesis by (simp add: add_mistake_def)
  next
    case nz: False
    show ?thesis
    proof (cases "find_mistake v (mistakes s)")
      case None
      then have fresh: "v \<notin> m_word_id ` set (mistakes s)"
        by (auto simp: find_mistake_None_iff)
      with inv Some nz None show ?thesis
        by (fastforce simp: add_mistake_def mistakes_inv_def Let_def)
    next
      case (Some row)
      with inv \<open>w = Some v\<close> nz show ?thesis
        by (auto simp: add_mistake_def mistakes_inv_def)
    qed
  qed
qed

lemma mistakes_inv_correct: "mistakes_inv s \<Longrightarrow> mistakes_inv (snd (record_correct w s))"
  by (auto simp: record_correct_def mistakes_inv_def Let_def distinct_map_filter
      split: option.splits dest: find_mistake_SomeD)

lemma mistakes_inv_delete: "mistakes_inv s \<Longrightarrow> mistakes_inv (snd (delete_mistake i s))"
  by (auto simp: delete_mistake_def mistakes_inv_def distinct_map_filter)

lemma mistakes_inv_clear: "mistakes_inv s \<Longrightarrow> mistakes_inv (snd (clear_mistakes s))"
  by (auto simp: clear_mistakes_def mistakes_inv_def)

lemma mistakes_inv_step: "mistakes_inv s \<Longrightarrow> mistakes_inv (mistake_step s op)"
  by (cases op)
    (simp_all add: mistakes_inv_add mistakes_inv_correct mistakes_inv_delete mistakes_inv_clear)

lemma mistakes_inv_foldl: "mistakes_inv s \<Longrightarrow> mistakes_inv (foldl mistake_step s ops)"
  by (induction ops arbitrary: s) (simp_all add: mistakes_inv_step)

lemma mistakes_inv_empty: "mistakes_inv db_empty"
  by (simp add: mistakes_inv_def db_empty_def)

text \<open>
  C1. In a store that satisfies the table's invariant, a correct answer for a flagged
  word adds one to the streak of its row. When the new streak reaches 2 the response
  is the removal and the word has no row afterwards; otherwise the response and the
  word's row are the old row with the new streak. From a word with no row, a wrong
  answer gives the row with count 1 and streak 0, a first correct answer gives streak
  1, and a second one removes the row.
\<close>

theorem record_correct_transition:
  assumes "mistakes_inv s"
  shows "(\<forall>row. find_mistake w (mistakes s) = Some row \<longrightarrow>
            (if correct_streak row + 1 \<ge> 2
             then fst (record_correct w s) = Inr Removed \<and>
                  find_mistake w (mistakes (snd (record_correct w s))) = None
             else fst (record_correct w s) =
                    Inr (Updated (row\<lparr>correct_streak := correct_streak row + 1\<rparr>)) \<and>
                  find_mistake w (mistakes (snd (record_correct w s))) =
                    Some (row\<lparr>correct_streak := correct_streak row + 1\<rparr>))) \<and>
         (w \<noteq> 0 \<and> find_mistake w (mistakes s) = None \<longrightarrow>
            (let s1 = snd (add_mistake (Some w) s);
                 s2 = snd (record_correct w s1);
                 s3 = snd (record_correct w s2)
             in find_mistake w (mistakes s1) =
                  Some \<lparr>m_id = mistakes_seq s + 1, m_word_id = w, mistake_count = 1, correct_streak = 0\<rparr> \<and>
                find_mistake w (mistakes s2) =
                  Some \<lparr>m_id = mistakes_seq s + 1, m_word_id = w, mistake_count = 1, correct_streak = 1\<rparr> \<and>
                find_mistake w (mistakes s3) = None))"
proof -
  have step: "if correct_streak row + 1 \<ge> 2
        then fst (record_correct w t) = Inr Removed \<and>
             find_mistake w (mistakes (snd (record_correct w t))) = None
        else fst (record_correct w t) =
               Inr (Updated (row\<lparr>correct_streak := correct_streak row + 1\<rparr>)) \<and>
             find_mistake w (mistakes (snd (record_correct w t))) =
               Some (row\<lparr>correct_streak := correct_streak row + 1\<rparr>)"
    if inv: "mistakes_inv t" and r: "find_mistake w (mistakes t) = Some row" for t row
  proof (cases "correct_streak row + 1 \<ge> 2")
    case True
    from inv have "distinct (map m_word_id (mistakes t))" by (simp add: mistakes_inv_def)
    from find_mistake_filter_removed [OF this r] True r show ?thesis
      by (simp add: record_correct_def Let_def)
  next
    case False
    from find_mistake_map_upd [OF r, of "\<lambda>m. m\<lparr>correct_streak := correct_streak row + 1\<rparr>"]
    show ?thesis using False r by (simp add: record_correct_def Let_def)
  qed
  have scenario: "let s1 = snd (add_mistake (Some w) s);
                 s2 = snd (record_correct w s1);
                 s3 = snd (record_correct w s2)
             in find_mistake w (mistakes s1) =
                  Some \<lparr>m_id = mistakes_seq s + 1, m_word_id = w, mistake_count = 1, correct_streak = 0\<rparr> \<and>
                find_mistake w (mistakes s2) =
                  Some \<lparr>m_id = mistakes_seq s + 1, m_word_id = w, mistake_count = 1, correct_streak = 1\<rparr> \<and>
                find_mistake w (mistakes s3) = None"
    if nz: "w \<noteq> 0" and n: "find_mistake w (mistakes s) = None"
  proof -
    define s1 where "s1 = snd (add_mistake (Some w) s)"
    define s2 where "s2 = snd (record_correct w s1)"
    define s3 where "s3 = snd (record_correct w s2)"
    have i1: "mistakes_inv s1" unfolding s1_def using assms by (rule mistakes_inv_add)
    have i2: "mistakes_inv s2" unfolding s2_def using i1 by (rule mistakes_inv_correct)
    have f1: "find_mistake w (mistakes s1) =
        Some \<lparr>m_id = mistakes_seq s + 1, m_word_id = w, mistake_count = 1, correct_streak = 0\<rparr>"
      unfolding s1_def using nz n by (simp add: add_mistake_def Let_def find_mistake_append_new)
    from step [OF i1 f1] have f2: "find_mistake w (mistakes s2) =
        Some \<lparr>m_id = mistakes_seq s + 1, m_word_id = w, mistake_count = 1, correct_streak = 1\<rparr>"
      by (simp add: s2_def)
    from step [OF i2 f2] have f3: "find_mistake w (mistakes s3) = None"
      by (simp add: s3_def)
    from f1 f2 f3 show ?thesis by (simp add: s1_def s2_def s3_def Let_def)
  qed
  from step [OF assms] scenario show ?thesis by blast
qed

text \<open>
  The witness: word 7 flagged with streak 1 is removed by a correct answer, and word 9,
  unknown to the empty store, goes through the three steps.
\<close>

definition store_flagged :: db where
  "store_flagged = db_empty\<lparr>mistakes :=
       [\<lparr>m_id = 1, m_word_id = 7, mistake_count = 3, correct_streak = 1\<rparr>,
        \<lparr>m_id = 2, m_word_id = 8, mistake_count = 1, correct_streak = 0\<rparr>],
     mistakes_seq := 2\<rparr>"

lemma store_flagged_inv: "mistakes_inv store_flagged"
  by (simp add: mistakes_inv_def store_flagged_def db_empty_def)

theorem record_correct_transition_witness:
  "mistakes_inv store_flagged \<and>
   find_mistake 7 (mistakes store_flagged) =
     Some \<lparr>m_id = 1, m_word_id = 7, mistake_count = 3, correct_streak = 1\<rparr> \<and>
   fst (record_correct 7 store_flagged) = Inr Removed \<and>
   find_mistake 7 (mistakes (snd (record_correct 7 store_flagged))) = None \<and>
   find_mistake 8 (mistakes (snd (record_correct 8 store_flagged))) =
     Some \<lparr>m_id = 2, m_word_id = 8, mistake_count = 1, correct_streak = 1\<rparr> \<and>
   find_mistake 9 (mistakes store_flagged) = None \<and>
   find_mistake 9 (mistakes (snd (add_mistake (Some 9) store_flagged))) =
     Some \<lparr>m_id = 3, m_word_id = 9, mistake_count = 1, correct_streak = 0\<rparr> \<and>
   find_mistake 9 (mistakes (snd (record_correct 9 (snd (record_correct 9
       (snd (add_mistake (Some 9) store_flagged))))))) = None"
  using record_correct_transition [OF store_flagged_inv, of 7]
    record_correct_transition [OF store_flagged_inv, of 8]
    record_correct_transition [OF store_flagged_inv, of 9]
  by (simp add: store_flagged_inv Let_def)
    (simp add: store_flagged_def db_empty_def find_mistake_def)

text \<open>
  The copy in \<open>server.js\<close> follows the spec's other policy: after one wrong answer, the
  first correct answer already removes the row, and a second one finds nothing.
\<close>

lemma record_correct_v2_scenario:
  "snd (add_mistake_v2 (Some 9) ([], 0)) = ([\<lparr>m2_id = 1, m2_word_id = 9, m2_mistake_count = 1\<rparr>], 1) \<and>
   record_correct_v2 9 (snd (add_mistake_v2 (Some 9) ([], 0))) = (Inr (), ([], 1)) \<and>
   record_correct_v2 9 ([], 1) = (Inl NotFoundError, ([], 1))"
  by (simp add: add_mistake_v2_def record_correct_v2_def)

text \<open>
  C2. A wrong answer with a word id that is present and not 0: for a word with no row,
  the response and the word's row afterwards are a new row with count 1 and streak 0;
  for a word with a row, they are that row with the count one higher and the streak 0.
\<close>

theorem add_mistake_transition:
  assumes "w \<noteq> 0"
  shows "(find_mistake w (mistakes s) = None \<longrightarrow>
            fst (add_mistake (Some w) s) =
              Inr \<lparr>m_id = mistakes_seq s + 1, m_word_id = w, mistake_count = 1, correct_streak = 0\<rparr> \<and>
            find_mistake w (mistakes (snd (add_mistake (Some w) s))) =
              Some \<lparr>m_id = mistakes_seq s + 1, m_word_id = w, mistake_count = 1, correct_streak = 0\<rparr>) \<and>
         (\<forall>row. find_mistake w (mistakes s) = Some row \<longrightarrow>
            fst (add_mistake (Some w) s) =
              Inr (row\<lparr>mistake_count := mistake_count row + 1, correct_streak := 0\<rparr>) \<and>
            find_mistake w (mistakes (snd (add_mistake (Some w) s))) =
              Some (row\<lparr>mistake_count := mistake_count row + 1, correct_streak := 0\<rparr>))"
proof (intro conjI impI allI)
  assume n: "find_mistake w (mistakes s) = None"
  with assms show "fst (add_mistake (Some w) s) =
      Inr \<lparr>m_id = mistakes_seq s + 1, m_word_id = w, mistake_count = 1, correct_streak = 0\<rparr>"
    by (simp add: add_mistake_def Let_def)
  from n assms show "find_mistake w (mistakes (snd (add_mistake (Some w) s))) =
      Some \<lparr>m_id = mistakes_seq s + 1, m_word_id = w, mistake_count = 1, correct_streak = 0\<rparr>"
    by (simp add: add_mistake_def Let_def find_mistake_append_new)
next
  fix row assume r: "find_mistake w (mistakes s) = Some row"
  then have "m_word_id row = w" by (auto dest: find_mistake_SomeD)
  with r assms show "fst (add_mistake (Some w) s) =
      Inr (row\<lparr>mistake_count := mistake_count row + 1, correct_streak := 0\<rparr>)"
    by (simp add: add_mistake_def)
  from find_mistake_map_upd [OF r, of "\<lambda>m. m\<lparr>mistake_count := mistake_count m + 1, correct_streak := 0\<rparr>"]
  show "find_mistake w (mistakes (snd (add_mistake (Some w) s))) =
      Some (row\<lparr>mistake_count := mistake_count row + 1, correct_streak := 0\<rparr>)"
    using r assms by (simp add: add_mistake_def)
qed

theorem add_mistake_transition_witness:
  "(5::int) \<noteq> 0 \<and> find_mistake 5 (mistakes db_empty) = None \<and>
   add_mistake (Some 5) db_empty =
     (Inr \<lparr>m_id = 1, m_word_id = 5, mistake_count = 1, correct_streak = 0\<rparr>,
      db_empty\<lparr>mistakes := [\<lparr>m_id = 1, m_word_id = 5, mistake_count = 1, correct_streak = 0\<rparr>],
               mistakes_seq := 1\<rparr>) \<and>
   find_mistake 7 (mistakes store_flagged) =
     Some \<lparr>m_id = 1, m_word_id = 7, mistake_count = 3, correct_streak = 1\<rparr> \<and>
   fst (add_mistake (Some 7) store_flagged) =
     Inr \<lparr>m_id = 1, m_word_id = 7, mistake_count = 4, correct_streak = 0\<rparr> \<and>
   find_mistake 7 (mistakes (snd (add_mistake (Some 7) store_flagged))) =
     Some \<lparr>m_id = 1, m_word_id = 7, mistake_count = 4, correct_streak = 0\<rparr>"
  using add_mistake_transition [of 5 db_empty] add_mistake_transition [of 7 store_flagged]
  by (simp add: store_flagged_def db_empty_def find_mistake_def add_mistake_def Let_def)

text \<open>
  C3. Every store reached from the empty one by requests of the tracker (add a
  mistake, record a correct answer, delete a row, clear the table) has at most one row
  per word id, and every row has a streak of 0 or 1 and a count of 1 at least; each
  request keeps this invariant from any store that has it.
\<close>

theorem mistakes_invariant:
  "mistakes_inv (run_mistake_ops ops) \<and>
   (\<forall>s op. mistakes_inv s \<longrightarrow> mistakes_inv (mistake_step s op))"
  by (simp add: run_mistake_ops_def mistakes_inv_foldl mistakes_inv_empty mistakes_inv_step)

theorem mistakes_invariant_witness:
  "mistakes_inv (run_mistake_ops
      [AddMistake (Some 3), AddMistake (Some 3), RecordCorrect 3, AddMistake (Some 4),
       RecordCorrect 4, RecordCorrect 4, AddMistake None, DeleteMistake 9]) \<and>
   mistakes (run_mistake_ops
      [AddMistake (Some 3), AddMistake (Some 3), RecordCorrect 3, AddMistake (Some 4),
       RecordCorrect 4, RecordCorrect 4, AddMistake None, DeleteMistake 9]) =
     [\<lparr>m_id = 1, m_word_id = 3, mistake_count = 2, correct_streak = 1\<rparr>] \<and>
   mistakes_inv store_flagged \<and> mistakes_inv (mistake_step store_flagged (RecordCorrect 7))"
proof -
  note inv = mistakes_invariant [of "[AddMistake (Some 3), AddMistake (Some 3), RecordCorrect 3,
      AddMistake (Some 4), RecordCorrect 4, RecordCorrect 4, AddMistake None, DeleteMistake 9]"]
  from inv have a: "mistakes_inv (run_mistake_ops
      [AddMistake (Some 3), AddMistake (Some 3), RecordCorrect 3, AddMistake (Some 4),
       RecordCorrect 4, RecordCorrect 4, AddMistake None, DeleteMistake 9])"
    by blast
  have b: "mistakes (run_mistake_ops
      [AddMistake (Some 3), AddMistake (Some 3), RecordCorrect 3, AddMistake (Some 4),
       RecordCorrect 4, RecordCorrect 4, AddMistake None, DeleteMistake 9]) =
     [\<lparr>m_id = 1, m_word_id = 3, mistake_count = 2, correct_streak = 1\<rparr>]"
    by (simp add: run_mistake_ops_def db_empty_def add_mistake_def record_correct_def
        delete_mistake_def find_mistake_def Let_def)
  from inv store_flagged_inv
  have c: "mistakes_inv (mistake_step store_flagged (RecordCorrect 7))"
    by blast
  from a b c store_flagged_inv show ?thesis
    by blast
qed

section \<open>Properties of the word store\<close>

text \<open>A store with two words, for the examples.\<close>

definition store_words :: db where
  "store_words = db_empty\<lparr>words :=
     [\<lparr>w_id = 1, english = ascii ''Apple'', chinese = [33529, 26524], example = None,
       added_date = 100, familiarity = 2, exposure = 5\<rparr>,
      \<lparr>w_id = 2, english = ascii ''pear'', chinese = [26792], example = Some (ascii ''a pear''),
       added_date = 101, familiarity = 0, exposure = 0\<rparr>]\<rparr>"

text \<open>
  C7. For a word of the store, \<open>update-stats\<close> succeeds, adds one to the exposure, adds
  one to the familiarity when the answer is correct and leaves it when it is wrong;
  the word's other fields stay as they are, and so do the rows of other words.
\<close>

theorem update_stats_effect:
  assumes "i < length (words s)" and "w_id (words s ! i) = wid"
  shows "fst (update_stats wid c s) = Inr () \<and>
         length (words (snd (update_stats wid c s))) = length (words s) \<and>
         words (snd (update_stats wid c s)) ! i =
           (words s ! i)\<lparr>exposure := exposure (words s ! i) + 1,
                         familiarity := (if c then familiarity (words s ! i) + 1
                                         else familiarity (words s ! i))\<rparr> \<and>
         (\<forall>j < length (words s). w_id (words s ! j) \<noteq> wid \<longrightarrow>
            words (snd (update_stats wid c s)) ! j = words s ! j)"
  using assms by (cases c) (simp_all add: update_stats_def Let_def)

theorem update_stats_effect_witness:
  "words (snd (update_stats 1 True store_words)) ! 0 =
     \<lparr>w_id = 1, english = ascii ''Apple'', chinese = [33529, 26524], example = None,
       added_date = 100, familiarity = 3, exposure = 6\<rparr> \<and>
   words (snd (update_stats 2 False store_words)) ! 1 =
     \<lparr>w_id = 2, english = ascii ''pear'', chinese = [26792], example = Some (ascii ''a pear''),
       added_date = 101, familiarity = 0, exposure = 1\<rparr> \<and>
   words (snd (update_stats 2 False store_words)) ! 0 = words store_words ! 0"
  using update_stats_effect [of 0 store_words 1 True] update_stats_effect [of 1 store_words 2 False]
  by (simp add: store_words_def db_empty_def)

text \<open>The copy in \<open>server.js\<close> takes one off the familiarity on a wrong answer.\<close>

lemma update_stats_v2_wrong:
  "update_stats_v2 2 False store_words =
     (Inr (), store_words\<lparr>words := [words store_words ! 0,
        (words store_words ! 1)\<lparr>exposure := 1, familiarity := - 1\<rparr>]\<rparr>)"
  by (simp add: update_stats_v2_def store_words_def db_empty_def)

section \<open>Updating a word\<close>

lemma find_dup_None_iff:
  "List.find (\<lambda>w. english w = e \<and> w_id w \<noteq> i) ws = None \<longleftrightarrow>
     \<not> (\<exists>w \<in> set ws. w_id w \<noteq> i \<and> english w = e)"
  by (auto simp: find_None_iff)

text \<open>
  C9. The copy without the check on update breaks the property: in the store with the
  words \<open>Apple\<close> (id 1) and \<open>pear\<close> (id 2), the update of word 2 to \<open>apple\<close>, which word 1
  has but for the case, succeeds and is stored, and the update of word 2 to \<open>Apple\<close>
  ends as the storage error of the \<open>UNIQUE\<close> column, not as a Conflict; adding a word
  \<open>apple\<close> to the same store is refused with Conflict.
\<close>

theorem update_word_duplicate:
  "lower (english (words store_words ! 0)) = lower (ascii ''apple'') \<and>
   w_id (words store_words ! 0) \<noteq> 2 \<and>
   fst (update_word 2 (ascii ''apple'') [26792] None store_words) =
     Inr (2, ascii ''apple'', [26792], None) \<and>
   map english (words (snd (update_word 2 (ascii ''apple'') [26792] None store_words))) =
     [ascii ''Apple'', ascii ''apple''] \<and>
   update_word 2 (ascii ''Apple'') [26792] None store_words = (Inl StorageError, store_words) \<and>
   add_word (ascii ''apple'') [26792] None 102 store_words = (Inl ConflictError, store_words)"
  by (simp add: update_word_def add_word_def sql_update_word_def store_words_def
      db_empty_def ascii_def lower_def)

text \<open>
  The copy in \<open>server.js\<close> compares the new \<open>english\<close> character for character, as its
  \<open>UNIQUE\<close> column does: it refuses \<open>Apple\<close> for word 2 with Conflict and stores \<open>apple\<close>.
\<close>

lemma update_word_v2_case:
  "update_word_v2 2 (ascii ''Apple'') [26792] None store_words = (Inl ConflictError, store_words) \<and>
   fst (update_word_v2 2 (ascii ''apple'') [26792] None store_words) =
     Inr (2, ascii ''apple'', [26792], None) \<and>
   map english (words (snd (update_word_v2 2 (ascii ''apple'') [26792] None store_words))) =
     [ascii ''Apple'', ascii ''apple'']"
  by (simp add: update_word_v2_def sql_update_word_def store_words_def db_empty_def ascii_def)

text \<open>
  What both copies do, with \<open>english\<close> and \<open>chinese\<close> given: in the copy with the check, an
  update whose \<open>english\<close> equals, character for character, that of a word with another id
  fails with Conflict and the store is unchanged, and one with no such word and no word
  of that id fails with NotFound and the store is unchanged; in the copy without the
  check, an update of an id that no word has fails with NotFound and the store is
  unchanged.
\<close>

lemma update_word_errors:
  assumes "e \<noteq> []" and "c \<noteq> []"
  shows "((\<exists>w \<in> set (words s). w_id w \<noteq> i \<and> english w = e) \<longrightarrow>
            update_word_v2 i e c x s = (Inl ConflictError, s)) \<and>
         (\<not> (\<exists>w \<in> set (words s). w_id w \<noteq> i \<and> english w = e) \<and>
          \<not> (\<exists>w \<in> set (words s). w_id w = i) \<longrightarrow>
            update_word_v2 i e c x s = (Inl NotFoundError, s)) \<and>
         (\<not> (\<exists>w \<in> set (words s). w_id w = i) \<longrightarrow>
            update_word i e c x s = (Inl NotFoundError, s))"
proof (intro conjI impI)
  assume "\<exists>w \<in> set (words s). w_id w \<noteq> i \<and> english w = e"
  then have "List.find (\<lambda>w. english w = e \<and> w_id w \<noteq> i) (words s) \<noteq> None"
    by (simp add: find_dup_None_iff)
  with assms show "update_word_v2 i e c x s = (Inl ConflictError, s)"
    by (auto simp: update_word_v2_def split: option.splits)
next
  assume a: "\<not> (\<exists>w \<in> set (words s). w_id w \<noteq> i \<and> english w = e) \<and>
          \<not> (\<exists>w \<in> set (words s). w_id w = i)"
  then have n: "List.find (\<lambda>w. english w = e \<and> w_id w \<noteq> i) (words s) = None"
    by (auto simp: find_dup_None_iff)
  from a have "filter (\<lambda>w. w_id w = i) (words s) = []"
    by (auto simp: filter_empty_conv)
  with a n assms show "update_word_v2 i e c x s = (Inl NotFoundError, s)"
    by (simp add: update_word_v2_def sql_update_word_def)
next
  assume a: "\<not> (\<exists>w \<in> set (words s). w_id w = i)"
  then have "filter (\<lambda>w. w_id w = i) (words s) = []"
    by (auto simp: filter_empty_conv)
  with a assms show "update_word i e c x s = (Inl NotFoundError, s)"
    by (simp add: update_word_def sql_update_word_def)
qed

lemma update_word_errors_example:
  "update_word_v2 2 (ascii ''Apple'') [26792] None store_words = (Inl ConflictError, store_words) \<and>
   update_word_v2 9 (ascii ''plum'') [26792] None store_words = (Inl NotFoundError, store_words) \<and>
   update_word 9 (ascii ''plum'') [26792] None store_words = (Inl NotFoundError, store_words)"
  using update_word_errors [of "ascii ''Apple''" "[26792]" store_words 2 None]
    update_word_errors [of "ascii ''plum''" "[26792]" store_words 9 None]
  by (simp add: store_words_def db_empty_def ascii_def)

section \<open>Properties of the reading submission\<close>

text \<open>The entry of \<open>results\<close> for one question.\<close>

definition answer_of :: "(nat \<Rightarrow> jsstring option) \<Rightarrow> reading_question \<Rightarrow> answer_result" where
  "answer_of ans q = \<lparr>a_questionId = q_id q, a_userAnswer = ans (q_id q),
      a_correctAnswer = correct_answer q,
      a_isCorrect = is_correct (ans (q_id q)) (correct_answer q)\<rparr>"

lemma foldl_check_answer:
  "foldl (check_answer ans) (n, rs) qs =
     (n + length (filter (\<lambda>q. is_correct (ans (q_id q)) (correct_answer q)) qs),
      rs @ map (answer_of ans) qs)"
  by (induction qs arbitrary: n rs) (simp_all add: check_answer_def Let_def answer_of_def)

lemma score_not_NaN: "t \<noteq> 0 \<Longrightarrow> math_round (js_times (js_div c t) k) \<noteq> NaN"
  by (simp add: js_div_def to_double_def Let_def)

text \<open>
  For fewer than 40 questions the double arithmetic gives the exactly rounded percentage
  (all 819 pairs are evaluated).
\<close>

lemma small_totals_exact:
  "\<forall>t \<in> set [1..<40]. \<forall>c \<in> set [0..<t + 1].
     math_round (js_times (js_div c t) 100) = Num (exact_percent c t) 0"
  by code_simp

lemma small_totals_exact':
  assumes "0 < t" "t < 40" "c \<le> t"
  shows "math_round (js_times (js_div c t) 100) = Num (exact_percent c t) 0"
proof -
  from assms have "t \<in> set [1..<40]" "c \<in> set [0..<t + 1]" by auto
  with small_totals_exact show ?thesis by blast
qed

text \<open>Two stores for the examples: a passage with two questions, and forty questions.\<close>

definition store_two :: db where
  "store_two = db_empty\<lparr>
     reading_passages := [\<lparr>p_id = 1, title = ascii ''Title'', content = ascii ''Body'', p_exposure = 0\<rparr>],
     reading_passages_seq := 1,
     reading_questions :=
       [\<lparr>q_id = 1, passage_id = 1, question_text = ascii ''Q1?'', option_a = ascii ''a'',
         option_b = ascii ''b'', option_c = ascii ''c'', correct_answer = ascii ''A''\<rparr>,
        \<lparr>q_id = 2, passage_id = 1, question_text = ascii ''Q2?'', option_a = ascii ''a'',
         option_b = ascii ''b'', option_c = ascii ''c'', correct_answer = ascii ''A''\<rparr>],
     reading_questions_seq := 2\<rparr>"

definition answers_AB :: "nat \<Rightarrow> jsstring option" where
  "answers_AB = [1 \<mapsto> ascii ''A'', 2 \<mapsto> ascii ''B'']"

definition store_forty :: db where
  "store_forty = db_empty\<lparr>reading_questions :=
     map (\<lambda>i. \<lparr>q_id = i, passage_id = 1, question_text = ascii ''Q?'', option_a = ascii ''a'',
                option_b = ascii ''b'', option_c = ascii ''c'', correct_answer = ascii ''A''\<rparr>)
       [1..<41],
     reading_questions_seq := 40\<rparr>"

definition answers_23 :: "nat \<Rightarrow> jsstring option" where
  "answers_23 i = (if i \<le> 23 then Some (ascii ''a'') else Some (ascii ''B''))"

text \<open>
  C8, as stated, fails when \<open>round(correct/total \<times> 100)\<close> is the rounding of the exact
  quotient: with 23 correct answers of 40 the double product is 57.49999999999999 and
  the score is 57, not 58.
\<close>

theorem submit_answers_counterexample:
  "(case fst (submit_answers 1 (Some answers_23) store_forty) of
      Inr r \<Rightarrow> r_score r = Num 57 0 \<and> r_correctCount r = 23 \<and> r_totalQuestions r = 40
    | Inl e \<Rightarrow> False) \<and>
   exact_percent 23 40 = 58"
  by code_simp

text \<open>
  C8, amended. For a passage with at least one question, the returned and the recorded
  score are the same number: \<open>Math.round\<close> of the double product
  \<open>(correct / total) * 100\<close>, where \<open>correct\<close> counts the questions of the passage whose
  submitted answer is not empty and equals the stored one after \<open>toUpperCase\<close>, and
  \<open>total\<close> is the number of the passage's questions. For fewer than 40 questions this
  is the exactly rounded percentage.
\<close>

theorem submit_answers_score:
  assumes "passageId \<noteq> 0"
    and "qs = filter (\<lambda>q. passage_id q = passageId) (reading_questions s)"
    and "qs \<noteq> []"
    and "c = length (filter (\<lambda>q. is_correct (ans (q_id q)) (correct_answer q)) qs)"
    and "sc = math_round (js_times (js_div c (length qs)) 100)"
  shows "submit_answers passageId (Some ans) s =
           (Inr \<lparr>r_score = sc, r_correctCount = c, r_totalQuestions = length qs,
                  r_results = map (answer_of ans) qs\<rparr>,
            s\<lparr>test_results := test_results s @
                 [\<lparr>t_id = test_results_seq s + 1, score = sc, total_words = int (length qs),
                   correct_count = int c, incorrect_count = int (length qs) - int c,
                   result_type = ''reading-comprehension''\<rparr>],
               test_results_seq := test_results_seq s + 1\<rparr>) \<and>
         (length qs < 40 \<longrightarrow> sc = Num (exact_percent c (length qs)) 0)"
proof -
  from assms(3) have t: "length qs \<noteq> 0" by simp
  then have nn: "sc \<noteq> NaN" unfolding assms(5) by (rule score_not_NaN)
  have le: "c \<le> length qs" unfolding assms(4) by simp
  have a: "submit_answers passageId (Some ans) s =
           (Inr \<lparr>r_score = sc, r_correctCount = c, r_totalQuestions = length qs,
                  r_results = map (answer_of ans) qs\<rparr>,
            s\<lparr>test_results := test_results s @
                 [\<lparr>t_id = test_results_seq s + 1, score = sc, total_words = int (length qs),
                   correct_count = int c, incorrect_count = int (length qs) - int c,
                   result_type = ''reading-comprehension''\<rparr>],
               test_results_seq := test_results_seq s + 1\<rparr>)"
    using assms(1) nn
    by (simp add: submit_answers_def Let_def foldl_check_answer sql_insert_test_result_def
        assms(2)[symmetric] assms(4)[symmetric] assms(5)[symmetric])
  have b: "sc = Num (exact_percent c (length qs)) 0" if "length qs < 40"
    unfolding assms(5) using t that le by (intro small_totals_exact') auto
  from a b show ?thesis by blast
qed

lemma half_score: "math_round (js_times (js_div 1 2) 100) = Num 50 0"
  by code_simp

theorem submit_answers_score_witness:
  "submit_answers 1 (Some answers_AB) store_two =
     (Inr \<lparr>r_score = Num 50 0, r_correctCount = 1, r_totalQuestions = 2,
            r_results =
              [\<lparr>a_questionId = 1, a_userAnswer = Some (ascii ''A''), a_correctAnswer = ascii ''A'',
                a_isCorrect = True\<rparr>,
               \<lparr>a_questionId = 2, a_userAnswer = Some (ascii ''B''), a_correctAnswer = ascii ''A'',
                a_isCorrect = False\<rparr>]\<rparr>,
      store_two\<lparr>test_results :=
          [\<lparr>t_id = 1, score = Num 50 0, total_words = 2, correct_count = 1, incorrect_count = 1,
            result_type = ''reading-comprehension''\<rparr>],
        test_results_seq := 1\<rparr>) \<and>
   exact_percent 1 2 = 50"
proof -
  have q: "reading_questions store_two =
      filter (\<lambda>q. passage_id q = 1) (reading_questions store_two)"
    by (simp add: store_two_def)
  have c: "(1::nat) = length (filter (\<lambda>q. is_correct (answers_AB (q_id q)) (correct_answer q))
      (reading_questions store_two))"
    by (simp add: store_two_def answers_AB_def is_correct_def toUpperCase_def ascii_def)
  have len: "length (reading_questions store_two) = 2"
    by (simp add: store_two_def)
  have sc: "Num 50 0 = math_round (js_times (js_div 1 (length (reading_questions store_two))) 100)"
    unfolding len by (rule half_score [symmetric])
  have ne: "reading_questions store_two \<noteq> []" by (simp add: store_two_def)
  from submit_answers_score [of 1 "reading_questions store_two" store_two 1 answers_AB "Num 50 0",
      OF _ q ne c sc]
  show ?thesis
    by (simp add: store_two_def db_empty_def answer_of_def answers_AB_def is_correct_def
        toUpperCase_def ascii_def exact_percent_def)
qed



section \<open>Properties of the importer\<close>

subsection \<open>The spec's example\<close>

text \<open>
  The input of the spec's example, in its sections: the marker of the passage, a line
  feed, \<open>Title\<close>, a line feed, \<open>Body\<close>, and so on.
\<close>

definition example_passage :: jsstring where
  "example_passage = ascii ''Title'' @ [10] @ ascii ''Body''"

definition example_questions :: jsstring where
  "example_questions = ascii ''1. Q1? A. a B. b C. c''"

definition example_answers :: jsstring where
  "example_answers = ascii ''1. A''"

definition example_input :: jsstring where
  "example_input = marker_passage @ [10] @ example_passage @ [10] @
     marker_questions @ [10] @ example_questions @ [10] @
     marker_answers @ [10] @ example_answers"

text \<open>The definitions that an evaluation of the patterns unfolds.\<close>

lemmas pattern_defs = separator_def questionRegex_def answerRegex_def marker_passage_def
  marker_questions_def marker_answers_def stop_def Plus_def match_here_def is_space_def

lemmas example_defs = example_passage_def example_questions_def example_answers_def ascii_def

lemma example_split:
  "js_split separator example_input = [[], example_passage, example_questions, example_answers]"
  by (simp add: js_split_def example_input_def pattern_defs example_defs)

lemma example_trim:
  "trim example_passage = example_passage"
  "trim example_questions = example_questions"
  "trim example_answers = example_answers"
  "trim (ascii ''Title'') = ascii ''Title''"
  "trim (ascii ''Body'') = ascii ''Body''"
  by (simp_all add: trim_def example_defs is_space_def)

lemma example_lines: "split_lines example_passage = [ascii ''Title'', ascii ''Body'']"
  by (simp add: example_defs)

lemma example_parse_questions:
  "parse_questions example_questions =
     [\<lparr>questionText = ascii ''Q1?'', optionA = ascii ''a'', optionB = ascii ''b'',
       optionC = ascii ''c''\<rparr>]"
  apply (subst parse_questions.simps)
  apply (simp add: pattern_defs example_defs group_text_def trim_def)
  apply (subst parse_questions.simps)
  apply (simp add: pattern_defs)
  done

lemma example_parse_answers:
  "parse_answers example_answers ([], []) = ([(ascii ''1'', ascii ''A'')], [])"
  apply (subst parse_answers.simps)
  apply (simp add: pattern_defs example_defs group_text_def)
  apply (subst parse_answers.simps)
  apply (simp add: pattern_defs)
  done

text \<open>Every schedule runs each statement once, and a single statement as it is.\<close>

lemma run_order_mset: "mset (run_order ord xs) = mset xs"
proof (cases "sort ord = [0..<length xs]")
  case True
  then have "mset ord = mset [0..<length xs]"
    by (metis mset_sort)
  then have "mset (map (\<lambda>i. xs ! i) ord) = mset (map (\<lambda>i. xs ! i) [0..<length xs])"
    by (metis mset_map)
  with True show ?thesis by (simp add: run_order_def map_nth)
next
  case False
  then show ?thesis by (simp add: run_order_def)
qed

lemma run_order_single: "run_order ord [x] = [x]"
proof -
  have "mset (run_order ord [x]) = {#x#}" by (simp add: run_order_mset)
  then show ?thesis by (metis mset_single_iff_right mset.simps(1) mset.simps(2))
qed

text \<open>The second statement issued may run first.\<close>

lemma run_order_example: "run_order [1, 0, 2] [a, b, c] = [b, a, c]"
proof -
  have "sort [1, 0, 2 :: nat] = [0, 1, 2]" by simp
  moreover have "[0..<length [a, b, c]] = [0, 1, 2]" by (simp add: upt_rec)
  ultimately have "sort [1, 0, 2 :: nat] = [0..<length [a, b, c]]" by (simp only:)
  then show ?thesis unfolding run_order_def by (simp only: if_True) simp
qed

text \<open>Two schedules of a single insert: the commit answers before it, or after it.\<close>

definition commit_first :: schedule where
  "commit_first = \<lparr>insert_order = [0], reported = 0\<rparr>"

definition commit_last :: schedule where
  "commit_last = \<lparr>insert_order = [0], reported = 1\<rparr>"

text \<open>
  C4. For the input of the spec's example the importer succeeds, under every schedule,
  with one passage, and the store afterwards is the store before with exactly one more
  passage, of title \<open>Title\<close> and body \<open>Body\<close>, and exactly one more question, of that
  passage, with text \<open>Q1?\<close>, options \<open>a\<close>, \<open>b\<close>, \<open>c\<close> and correct answer \<open>A\<close>. The number
  of questions in the response is 0 or 1, as the schedule has it.
\<close>

theorem import_example:
  "import_reading example_input sched s =
     (Inr \<lparr>success_count = 1, total_questions = min (reported sched) 1\<rparr>,
      s\<lparr>reading_passages := reading_passages s @
           [\<lparr>p_id = reading_passages_seq s + 1, title = ascii ''Title'', content = ascii ''Body'',
             p_exposure = 0\<rparr>],
         reading_passages_seq := reading_passages_seq s + 1,
         reading_questions := reading_questions s @
           [\<lparr>q_id = reading_questions_seq s + 1, passage_id = reading_passages_seq s + 1,
             question_text = ascii ''Q1?'', option_a = ascii ''a'', option_b = ascii ''b'',
             option_c = ascii ''c'', correct_answer = ascii ''A''\<rparr>],
         reading_questions_seq := reading_questions_seq s + 1\<rparr>)"
proof -
  have ne: "example_input \<noteq> []"
    by (simp add: example_input_def marker_passage_def)
  have one: "to_string (Suc 0) = ascii ''1''"
    by (simp add: to_string.simps ascii_def)
  have nonempty: "ascii ''Title'' \<noteq> []" "ascii ''Body'' \<noteq> []" "ascii ''Q1?'' \<noteq> []"
    "ascii ''a'' \<noteq> []" "ascii ''b'' \<noteq> []" "ascii ''c'' \<noteq> []" "ascii ''A'' \<noteq> []"
    by (simp_all add: ascii_def)
  show ?thesis
    unfolding import_reading_def
    by (simp add: ne example_split example_trim example_lines example_parse_questions
        example_parse_answers one nonempty Let_def run_order_single insert_question_def)
qed

theorem import_example_witness:
  "import_reading example_input commit_last db_empty =
     (Inr \<lparr>success_count = 1, total_questions = 1\<rparr>,
      db_empty\<lparr>reading_passages :=
           [\<lparr>p_id = 1, title = ascii ''Title'', content = ascii ''Body'', p_exposure = 0\<rparr>],
         reading_passages_seq := 1,
         reading_questions :=
           [\<lparr>q_id = 1, passage_id = 1, question_text = ascii ''Q1?'', option_a = ascii ''a'',
             option_b = ascii ''b'', option_c = ascii ''c'', correct_answer = ascii ''A''\<rparr>],
         reading_questions_seq := 1\<rparr>) \<and>
   fst (import_reading example_input commit_first db_empty) =
     Inr \<lparr>success_count = 1, total_questions = 0\<rparr> \<and>
   snd (import_reading example_input commit_first db_empty) =
     snd (import_reading example_input commit_last db_empty)"
  using import_example [of commit_last db_empty] import_example [of commit_first db_empty]
  by (simp add: db_empty_def commit_last_def commit_first_def)

subsection \<open>Counts that differ\<close>

lemma import_failure_keeps_store:
  "import_reading raw sched s = (Inl f, s') \<Longrightarrow> s' = s"
  unfolding import_reading_def
  by (auto simp: Let_def split: list.splits option.splits prod.splits if_splits)

text \<open>An input with two questions and one answer.\<close>

definition two_questions :: jsstring where
  "two_questions = ascii ''1. Q1? A. a B. b C. c 2. Q2? A. d B. e C. f''"

definition mismatch_input :: jsstring where
  "mismatch_input = marker_passage @ [10] @ example_passage @ [10] @
     marker_questions @ [10] @ two_questions @ [10] @
     marker_answers @ [10] @ example_answers"

lemma mismatch_split:
  "js_split separator mismatch_input = [[], example_passage, two_questions, example_answers]"
  by (simp add: js_split_def mismatch_input_def pattern_defs example_defs two_questions_def)

lemma two_questions_parse:
  "parse_questions two_questions =
     [\<lparr>questionText = ascii ''Q1?'', optionA = ascii ''a'', optionB = ascii ''b'',
       optionC = ascii ''c''\<rparr>,
      \<lparr>questionText = ascii ''Q2?'', optionA = ascii ''d'', optionB = ascii ''e'',
       optionC = ascii ''f''\<rparr>]"
  apply (subst parse_questions.simps)
  apply (simp add: pattern_defs two_questions_def ascii_def group_text_def trim_def)
  apply (subst parse_questions.simps)
  apply (simp add: pattern_defs group_text_def trim_def)
  apply (subst parse_questions.simps)
  apply (simp add: pattern_defs)
  done

lemma two_questions_trim: "trim two_questions = two_questions"
  by (simp add: trim_def two_questions_def ascii_def is_space_def)

text \<open>
  C5. For an input with its four segments, when the number of parsed questions differs
  from the number of parsed answers (the question numbers that the answers section
  gives a letter), the importer fails with a failure of status 400 and the store is
  unchanged.
\<close>

theorem import_count_mismatch:
  assumes "js_split separator raw = p0 # p1 # p2 # p3 # ps"
    and "length (parse_questions (trim p2)) \<noteq> length (fst (parse_answers (trim p3) ([], [])))"
  shows "\<exists>f. import_reading raw sched s = (Inl f, s) \<and> http_status (failure_error f) = 400"
  using assms unfolding import_reading_def
  by (auto simp: Let_def split: list.splits option.splits prod.splits if_splits)

theorem import_count_mismatch_witness:
  "js_split separator mismatch_input = [[], example_passage, two_questions, example_answers] \<and>
   length (parse_questions (trim two_questions)) = 2 \<and>
   length (fst (parse_answers (trim example_answers) ([], []))) = 1 \<and>
   import_reading mismatch_input commit_last db_empty = (Inl (CountMismatch 2 1), db_empty)"
proof -
  have ne: "mismatch_input \<noteq> []" by (simp add: mismatch_input_def marker_passage_def)
  have nonempty: "ascii ''Title'' \<noteq> []" "ascii ''Body'' \<noteq> []" "ascii ''Q1?'' \<noteq> []"
    "ascii ''a'' \<noteq> []" "ascii ''b'' \<noteq> []" "ascii ''c'' \<noteq> []" "ascii ''A'' \<noteq> []"
    "ascii ''Q2?'' \<noteq> []" "ascii ''d'' \<noteq> []" "ascii ''e'' \<noteq> []" "ascii ''f'' \<noteq> []"
    by (simp_all add: ascii_def)
  have q: "length (parse_questions (trim two_questions)) \<noteq>
      length (fst (parse_answers (trim example_answers) ([], [])))"
    by (simp add: two_questions_trim two_questions_parse example_trim example_parse_answers)
  have r: "import_reading mismatch_input commit_last db_empty =
      (Inl (CountMismatch 2 1), db_empty)"
    unfolding import_reading_def
    by (simp add: ne mismatch_split example_trim example_lines two_questions_trim
        two_questions_parse example_parse_answers nonempty Let_def)
  from import_count_mismatch [OF mismatch_split q, of commit_last db_empty] r mismatch_split
  show ?thesis
    by (simp add: two_questions_trim two_questions_parse example_trim example_parse_answers)
qed

subsection \<open>The markers in order\<close>

text \<open>The definition of \<open>markers_in_order\<close> says what the spec's words say.\<close>

lemma starts_with_append: "starts_with m (m @ t)"
  by (simp add: starts_with_def)

lemma starts_with_iff: "starts_with m t \<longleftrightarrow> (\<exists>r. t = m @ r)"
  by (metis append_eq_conv_conj starts_with_def)

lemma after_first_SomeD: "after_first m t = Some r \<Longrightarrow> \<exists>a. t = a @ m @ r"
proof (induction t)
  case Nil
  then show ?case by (auto split: if_splits)
next
  case (Cons x xs)
  show ?case
  proof (cases "starts_with m (x # xs)")
    case True
    with Cons.prems have "r = drop (length m) (x # xs)" by simp
    moreover from True have "x # xs = m @ drop (length m) (x # xs)"
      by (metis append_take_drop_id starts_with_def)
    ultimately have "x # xs = [] @ m @ r" by simp
    then show ?thesis by blast
  next
    case False
    with Cons.prems have "after_first m xs = Some r" by simp
    from Cons.IH [OF this] obtain a where "xs = a @ m @ r" by blast
    then have "x # xs = (x # a) @ m @ r" by simp
    then show ?thesis by blast
  qed
qed

lemma after_first_complete: "\<exists>u. after_first m (a @ m @ t) = Some (u @ t)"
proof (induction a)
  case Nil
  show ?case
  proof (cases m)
    case Nil
    then show ?thesis by (cases t) (auto simp: starts_with_def)
  next
    case (Cons y ys)
    then have "after_first m ([] @ m @ t) = Some ([] @ t)"
      using starts_with_append [of m t] by simp
    then show ?thesis by blast
  qed
next
  case (Cons x a)
  show ?case
  proof (cases "starts_with m (x # a @ m @ t)")
    case True
    have "length m \<le> length (x # a @ m)" by simp
    then have "drop (length m) (x # a @ m @ t) = drop (length m) (x # a @ m) @ t"
      by (metis append.assoc append_Cons drop_append diff_is_0_eq drop0)
    with True show ?thesis by auto
  next
    case False
    with Cons.IH show ?thesis by simp
  qed
qed

lemma markers_in_order_iff:
  "markers_in_order t \<longleftrightarrow>
     (\<exists>a b c d. t = a @ marker_passage @ b @ marker_questions @ c @ marker_answers @ d)"
proof
  assume "markers_in_order t"
  then obtain r1 r2 r3 where r:
    "after_first marker_passage t = Some r1" "after_first marker_questions r1 = Some r2"
    "after_first marker_answers r2 = Some r3"
    by (auto simp: markers_in_order_def split: option.splits)
  from after_first_SomeD [OF r(1)] after_first_SomeD [OF r(2)] after_first_SomeD [OF r(3)]
  show "\<exists>a b c d. t = a @ marker_passage @ b @ marker_questions @ c @ marker_answers @ d"
    by auto
next
  assume "\<exists>a b c d. t = a @ marker_passage @ b @ marker_questions @ c @ marker_answers @ d"
  then obtain a b c d where
    t: "t = a @ marker_passage @ b @ marker_questions @ c @ marker_answers @ d" by blast
  from after_first_complete [of marker_passage a "b @ marker_questions @ c @ marker_answers @ d"]
  obtain u1 where u1: "after_first marker_passage t =
      Some (u1 @ b @ marker_questions @ c @ marker_answers @ d)"
    unfolding t by blast
  from after_first_complete [of marker_questions "u1 @ b" "c @ marker_answers @ d"]
  obtain u2 where u2: "after_first marker_questions (u1 @ b @ marker_questions @ c @ marker_answers @ d) =
      Some (u2 @ c @ marker_answers @ d)"
    by auto
  from after_first_complete [of marker_answers "u2 @ c" d]
  obtain u3 where u3: "after_first marker_answers (u2 @ c @ marker_answers @ d) = Some (u3 @ d)"
    by auto
  from u1 u2 u3 show "markers_in_order t"
    by (simp add: markers_in_order_def)
qed

subsection \<open>The separator\<close>

lemma rmatch_lit:
  "rmatch (lit m) ys c k = (if starts_with m ys then k (drop (length m) ys) c else None)"
proof (induction m arbitrary: ys)
  case Nil
  show ?case by (simp add: starts_with_def)
next
  case (Cons u us)
  show ?case
  proof (cases ys)
    case Nil
    then show ?thesis by (simp add: starts_with_def)
  next
    case (Cons x r)
    with Cons.IH [of r] show ?thesis by (auto simp: starts_with_def)
  qed
qed

lemma star_greedy_total:
  assumes "\<And>ys. k ys c \<noteq> None"
  shows "star_greedy cl xs c k = k (dropWhile (in_class cl) xs) c"
proof (induction xs)
  case Nil
  show ?case by simp
next
  case (Cons x xs)
  from assms [of "dropWhile (in_class cl) xs"] Cons.IH show ?case
    by (auto split: option.splits)
qed

lemma star_greedy_gate:
  assumes "\<And>x t. in_class cl x \<Longrightarrow> k (x # t) c = None"
  shows "star_greedy cl xs c k = k (dropWhile (in_class cl) xs) c"
proof (induction xs)
  case Nil
  show ?case by simp
next
  case (Cons x xs)
  show ?case
  proof (cases "in_class cl x")
    case True
    with Cons.IH assms [OF True, of xs] show ?thesis
      by (cases "k (dropWhile (in_class cl) xs) c") auto
  next
    case False
    then show ?thesis by simp
  qed
qed

lemma in_class_Space: "in_class Space = is_space"
  by (simp add: fun_eq_iff)

lemma rmatch_branch:
  assumes "m \<noteq> []" and "\<not> is_space (hd m)"
  shows "rmatch (seqs [Star Space, lit m, Star Space]) xs c (\<lambda>ys caps. Some (ys, caps)) =
     (if starts_with m (dropWhile is_space xs)
      then Some (dropWhile is_space (drop (length m) (dropWhile is_space xs)), c)
      else None)"
proof -
  let ?k = "\<lambda>ys caps. rmatch (lit m) ys caps
      (\<lambda>zs caps'. star_greedy Space zs caps' (\<lambda>ws caps''. Some (ws, caps'')))"
  have blocked: "?k (x # t) c = None" if "in_class Space x" for x t
  proof -
    from that assms have "\<not> starts_with m (x # t)"
      by (cases m) (auto simp: starts_with_def)
    then show ?thesis by (simp add: rmatch_lit)
  qed
  have "rmatch (seqs [Star Space, lit m, Star Space]) xs c (\<lambda>ys caps. Some (ys, caps)) =
      star_greedy Space xs c ?k"
    by simp
  also have "\<dots> = ?k (dropWhile (in_class Space) xs) c"
    using blocked by (rule star_greedy_gate)
  also have "\<dots> = (if starts_with m (dropWhile is_space xs)
      then Some (dropWhile is_space (drop (length m) (dropWhile is_space xs)), c)
      else None)"
    by (simp add: rmatch_lit star_greedy_total in_class_Space)
  finally show ?thesis .
qed

text \<open>What a match of the separator is.\<close>

definition sep_spec :: "jsstring \<Rightarrow> match_state option" where
  "sep_spec xs =
     (let ys = dropWhile is_space xs in
      if starts_with marker_passage ys then Some (dropWhile is_space (drop 4 ys), Map.empty)
      else if starts_with marker_questions ys then Some (dropWhile is_space (drop 3 ys), Map.empty)
      else if starts_with marker_answers ys then Some (dropWhile is_space (drop 2 ys), Map.empty)
      else None)"

lemma match_here_separator: "match_here separator xs = sep_spec xs"
proof -
  have b1: "rmatch (seqs [Star Space, lit marker_passage, Star Space]) xs Map.empty
      (\<lambda>ys caps. Some (ys, caps)) =
     (if starts_with marker_passage (dropWhile is_space xs)
      then Some (dropWhile is_space (drop (length marker_passage) (dropWhile is_space xs)), Map.empty)
      else None)"
    by (rule rmatch_branch) (simp_all add: marker_passage_def is_space_def)
  have b2: "rmatch (seqs [Star Space, lit marker_questions, Star Space]) xs Map.empty
      (\<lambda>ys caps. Some (ys, caps)) =
     (if starts_with marker_questions (dropWhile is_space xs)
      then Some (dropWhile is_space (drop (length marker_questions) (dropWhile is_space xs)), Map.empty)
      else None)"
    by (rule rmatch_branch) (simp_all add: marker_questions_def is_space_def)
  have b3: "rmatch (seqs [Star Space, lit marker_answers, Star Space]) xs Map.empty
      (\<lambda>ys caps. Some (ys, caps)) =
     (if starts_with marker_answers (dropWhile is_space xs)
      then Some (dropWhile is_space (drop (length marker_answers) (dropWhile is_space xs)), Map.empty)
      else None)"
    by (rule rmatch_branch) (simp_all add: marker_answers_def is_space_def)
  have len: "length marker_passage = 4" "length marker_questions = 3" "length marker_answers = 2"
    by (simp_all add: marker_passage_def marker_questions_def marker_answers_def)
  show ?thesis
    unfolding match_here_def separator_def rmatch.simps(4) b1 b2 b3 len sep_spec_def Let_def
    by simp
qed

subsection \<open>Counting markers\<close>

definition marker_start :: "nat \<Rightarrow> bool" where
  "marker_start u \<longleftrightarrow> u = 38405 \<or> u = 36873 \<or> u = 31572"

lemma marker_here_start: "marker_here (x # xs) \<Longrightarrow> marker_start x"
  by (auto simp: marker_here_def starts_with_def marker_start_def marker_passage_def
      marker_questions_def marker_answers_def)

lemma marker_count_skip:
  "\<forall>u \<in> set pre. \<not> marker_start u \<Longrightarrow> marker_count (pre @ r) = marker_count r"
  by (induction pre) (auto dest: marker_here_start)

lemma space_not_start: "is_space u \<Longrightarrow> \<not> marker_start u"
  by (auto simp: is_space_def marker_start_def)

lemma marker_count_dropWhile: "marker_count (dropWhile is_space xs) = marker_count xs"
proof -
  have "marker_count (takeWhile is_space xs @ dropWhile is_space xs) =
      marker_count (dropWhile is_space xs)"
    by (rule marker_count_skip) (auto dest: set_takeWhileD space_not_start)
  then show ?thesis by simp
qed

lemma marker_count_after:
  "starts_with marker_passage ys \<Longrightarrow> marker_count ys = 1 + marker_count (drop 4 ys)"
  "starts_with marker_questions ys \<Longrightarrow> marker_count ys = 1 + marker_count (drop 3 ys)"
  "starts_with marker_answers ys \<Longrightarrow> marker_count ys = 1 + marker_count (drop 2 ys)"
  by (auto simp: starts_with_iff marker_passage_def marker_questions_def marker_answers_def
      marker_here_def starts_with_def)

lemma sep_spec_None: "sep_spec (x # xs) = None \<Longrightarrow> \<not> marker_here (x # xs)"
proof (cases "is_space x")
  case True
  then show ?thesis by (auto dest: marker_here_start space_not_start)
next
  case False
  assume "sep_spec (x # xs) = None"
  with False show ?thesis
    by (auto simp: sep_spec_def marker_here_def Let_def split: if_splits)
qed

lemma sep_spec_Some:
  "sep_spec xs = Some (rest, caps) \<Longrightarrow> marker_count xs = 1 + marker_count rest"
  using marker_count_dropWhile [of xs] marker_count_after [of "dropWhile is_space xs"]
  by (auto simp: sep_spec_def Let_def marker_count_dropWhile split: if_splits)

lemma split_loop_length:
  "r = separator \<Longrightarrow> length (split_loop r seg xs) = 1 + marker_count xs"
proof (induction r seg xs rule: split_loop.induct)
  case (1 r seg)
  show ?case by simp
next
  case (2 r seg x xs)
  show ?case
  proof (cases "match_here r (x # xs)")
    case None
    with 2 have "\<not> marker_here (x # xs)"
      by (auto simp: match_here_separator dest: sep_spec_None)
    with None 2 show ?thesis by simp
  next
    case (Some m)
    obtain rest caps where m: "m = (rest, caps)" by (cases m)
    from Some m 2(4) have shorter: "length rest < length (x # xs)"
      by (auto dest: match_here_consuming [OF consuming_patterns(1)])
    from Some m 2(4) have "marker_count (x # xs) = 1 + marker_count rest"
      by (auto simp: match_here_separator dest: sep_spec_Some)
    moreover from 2(3) [OF Some m [symmetric]] shorter 2(4)
    have "length (split_loop r [] rest) = 1 + marker_count rest" by simp
    ultimately show ?thesis using Some m shorter by simp
  qed
qed

lemma js_split_length: "length (js_split separator t) = 1 + marker_count t"
proof (cases t)
  case Nil
  then show ?thesis
    by (simp add: js_split_def match_here_separator sep_spec_def starts_with_def
        marker_passage_def marker_questions_def marker_answers_def)
next
  case (Cons x xs)
  then have "js_split separator t = split_loop separator [] t"
    by (simp add: js_split_def del: split_loop.simps)
  with split_loop_length [OF refl, of "[]" t] show ?thesis by simp
qed

lemma marker_count_drop: "marker_count (drop n xs) \<le> marker_count xs"
proof (induction xs arbitrary: n)
  case Nil
  show ?case by simp
next
  case (Cons x xs)
  show ?case
  proof (cases n)
    case 0
    then show ?thesis by simp
  next
    case (Suc k)
    with Cons.IH [of k] show ?thesis by simp
  qed
qed

lemma after_first_count:
  assumes "m = marker_passage \<or> m = marker_questions \<or> m = marker_answers"
  shows "after_first m xs = Some r \<Longrightarrow> 1 + marker_count r \<le> marker_count xs"
proof (induction xs)
  case Nil
  with assms show ?case
    by (auto simp: marker_passage_def marker_questions_def marker_answers_def)
next
  case (Cons x xs)
  show ?case
  proof (cases "starts_with m (x # xs)")
    case True
    with assms have here: "marker_here (x # xs)" by (auto simp: marker_here_def)
    from assms obtain k where k: "length m = Suc k"
      by (auto simp: marker_passage_def marker_questions_def marker_answers_def)
    from True Cons.prems k have "r = drop k xs" by simp
    with marker_count_drop [of k xs] here show ?thesis by simp
  next
    case False
    with Cons.prems have "after_first m xs = Some r" by simp
    from Cons.IH [OF this] show ?thesis by simp
  qed
qed

lemma markers_in_order_count: "markers_in_order t \<Longrightarrow> 3 \<le> marker_count t"
proof -
  assume "markers_in_order t"
  then obtain r1 r2 r3 where r:
    "after_first marker_passage t = Some r1" "after_first marker_questions r1 = Some r2"
    "after_first marker_answers r2 = Some r3"
    by (auto simp: markers_in_order_def split: option.splits)
  from after_first_count [OF _ r(1)] after_first_count [OF _ r(2)] after_first_count [OF _ r(3)]
  show ?thesis by simp
qed

subsection \<open>Fewer than four segments\<close>

text \<open>
  An input with the three markers in the opposite order, and one with a single marker.
\<close>

definition unordered_input :: jsstring where
  "unordered_input = marker_answers @ [10] @ example_passage @ [10] @
     marker_questions @ [10] @ example_questions @ [10] @
     marker_passage @ [10] @ example_answers"

lemma unordered_split:
  "js_split separator unordered_input = [[], example_passage, example_questions, example_answers]"
  by (simp add: js_split_def unordered_input_def pattern_defs example_defs)

lemma unordered_not_in_order: "\<not> markers_in_order unordered_input"
  by (simp add: markers_in_order_def unordered_input_def starts_with_def example_defs
      marker_passage_def marker_questions_def marker_answers_def)

definition short_input :: jsstring where
  "short_input = marker_passage @ [10] @ example_passage"

text \<open>
  C6, as stated, fails: the input with the markers in the opposite order splits into
  four segments, although the markers are not all present in order, and the importer
  goes on to parse the sections and succeeds.
\<close>

theorem import_sections_counterexample:
  "length (js_split separator unordered_input) = 4 \<and> \<not> markers_in_order unordered_input \<and>
   (case import_reading unordered_input commit_last db_empty of
      (Inr r, s') \<Rightarrow> success_count r = 1 \<and> map title (reading_passages s') = [ascii ''Title'']
    | (Inl f, s') \<Rightarrow> False)"
proof -
  have ne: "unordered_input \<noteq> []"
    by (simp add: unordered_input_def marker_answers_def)
  have one: "to_string (Suc 0) = ascii ''1''"
    by (simp add: to_string.simps ascii_def)
  have nonempty: "ascii ''Title'' \<noteq> []" "ascii ''Body'' \<noteq> []" "ascii ''Q1?'' \<noteq> []"
    "ascii ''a'' \<noteq> []" "ascii ''b'' \<noteq> []" "ascii ''c'' \<noteq> []" "ascii ''A'' \<noteq> []"
    by (simp_all add: ascii_def)
  have "(case import_reading unordered_input commit_last db_empty of
      (Inr r, s') \<Rightarrow> success_count r = 1 \<and> map title (reading_passages s') = [ascii ''Title'']
    | (Inl f, s') \<Rightarrow> False)"
    unfolding import_reading_def
    by (simp add: ne unordered_split example_trim example_lines example_parse_questions
        example_parse_answers one nonempty Let_def run_order_single insert_question_def
        db_empty_def)
  with unordered_not_in_order unordered_split show ?thesis by simp
qed

text \<open>
  C6, amended. The split yields fewer than 4 segments exactly when a marker stands at
  fewer than three places of the text, whichever markers they are and in whatever
  order; a text with the three markers all present in order never yields fewer than 4
  segments; and when the split yields fewer than 4 segments, the importer fails with
  the failure of the missing sections (of the empty content for an empty text), of
  status 400, before any section is parsed, and the store is unchanged.
\<close>

theorem import_sections:
  "(length (js_split separator raw) < 4 \<longleftrightarrow> marker_count raw < 3) \<and>
   (markers_in_order raw \<longrightarrow> \<not> length (js_split separator raw) < 4) \<and>
   (length (js_split separator raw) < 4 \<longrightarrow>
      import_reading raw sched s = (Inl (if raw = [] then EmptyContent else MissingSections), s))"
proof (intro conjI impI)
  show "(length (js_split separator raw) < 4) = (marker_count raw < 3)"
    by (simp add: js_split_length)
  show "\<not> length (js_split separator raw) < 4" if "markers_in_order raw"
    using markers_in_order_count [OF that] by (simp add: js_split_length)
  show "import_reading raw sched s = (Inl (if raw = [] then EmptyContent else MissingSections), s)"
    if "length (js_split separator raw) < 4"
    using that unfolding import_reading_def
    by (auto split: list.splits)
qed

theorem import_sections_witness:
  "marker_count short_input < 3 \<and> length (js_split separator short_input) < 4 \<and>
   import_reading short_input commit_last db_empty = (Inl MissingSections, db_empty) \<and>
   markers_in_order example_input \<and> length (js_split separator example_input) = 4"
proof -
  have a: "length (js_split separator short_input) < 4"
    by (simp add: js_split_def short_input_def pattern_defs example_defs)
  have ne: "short_input \<noteq> []" by (simp add: short_input_def marker_passage_def)
  have b: "markers_in_order example_input"
    by (simp add: markers_in_order_def example_input_def starts_with_def example_defs
      marker_passage_def marker_questions_def marker_answers_def)
  from import_sections [of short_input commit_last db_empty]
    import_sections [of example_input commit_last db_empty] a b ne
  show ?thesis by (simp add: example_split)
qed

end
